theory Spec2Isabelle
  imports Main "HOL-Library.Word" "HOL-Library.Signed_Division"
begin

unbundle bit_operations_syntax

section \<open>Shared data model\<close>

text \<open>
  The repository holds two packages that parse the DUN dungeon format: \<open>dun\<close>
  (file \<open>configs/dun/dun.go\<close>, the parse of a whole DUN stream) and \<open>dunmini\<close>
  (the parse of a fixed-size buffer of square ids, together with the compositor
  \<open>Image\<close>, \<open>GetPillarRect\<close> and \<open>getArchID\<close>).  Names of the second package carry the
  prefix \<open>dunmini\<close> where both packages declare the same name.

  Go's \<open>int\<close> is modelled by \<open>int\<close>.  Every integer of the parsers is a grid coordinate,
  a 16-bit value read from the stream or a loop counter below \<open>2 * 65535\<close>, so no
  arithmetic of the code leaves the 64-bit range unless a coordinate offset of the
  configuration is itself within \<open>2 ^ 18\<close> of the limits of the type.  The arithmetic of
  the compositor is on pixel coordinates of a canvas that the process holds in memory,
  and is taken without overflow as well.
\<close>

type_synonym byte = "8 word"

text \<open>
  Errors returned by the code: the two end-of-input errors of \<open>io.ReadFull\<close>, the error
  built by \<open>fmt.Errorf\<close> (with its message), and errors handed back by collaborators
  outside the repository's parsers (\<open>mpq\<close>, \<open>os\<close>, \<open>dunconf\<close>, \<open>til\<close>, \<open>cel\<close>).
\<close>

datatype error = EOF | ErrUnexpectedEOF | Errorf string | External string

text \<open>A run-time panic of Go: an index out of range, named after the indexed object.\<close>

datatype panic = SquaresIndex | GridIndex | BufferIndex | PillarsIndex | ArchesIndex

text \<open>
  How a call of \<open>func (...) (err error)\<close> ends: it returns \<open>nil\<close> (\<open>Ret None\<close>), it returns
  an error (\<open>Ret (Some e)\<close>), or it panics.
\<close>

datatype outcome = Ret "error option" | Panic panic

text \<open>
  Modelled from the spec: the struct \<open>til.Square\<close> is declared in the package
  \<open>configs/til\<close>, which is not among the sources; the code reads its four fields
  \<open>PillarNumTop\<close>, \<open>PillarNumRight\<close>, \<open>PillarNumLeft\<close>, \<open>PillarNumBottom\<close>, the four
  integer pillar indices of a square.
\<close>

record Square =
  PillarNumTop :: int
  PillarNumRight :: int
  PillarNumLeft :: int
  PillarNumBottom :: int

text \<open>
  \<open>type Dungeon [ColMax][RowMax]map[string]int\<close>: an array indexed by \<open>col\<close>, then by \<open>row\<close>,
  of maps from attribute names to integers.  The model is a function of the two
  indices; every access goes through \<open>load\<close> or \<open>store\<close>, which check the indices against
  the bounds of the array as Go does.  Each cell holds a map made by \<open>New\<close> (not a nil
  map).
\<close>

type_synonym cell = "string \<rightharpoonup> int"
type_synonym Dungeon = "int \<Rightarrow> int \<Rightarrow> cell"

definition ColMax :: int where "ColMax = 112"
definition RowMax :: int where "RowMax = 112"

definition New :: Dungeon where
  "New = (\<lambda>col row. Map.empty)"

text \<open>\<open>dungeon[col][row][key] = v\<close>: the index \<open>col\<close> is checked first, then \<open>row\<close>.\<close>

definition store :: "Dungeon \<Rightarrow> int \<Rightarrow> int \<Rightarrow> string \<Rightarrow> int \<Rightarrow> panic + Dungeon" where
  "store D col row key v =
     (if 0 \<le> col \<and> col < ColMax then
        if 0 \<le> row \<and> row < RowMax then
          Inr (D(col := (D col)(row := (D col row)(key \<mapsto> v))))
        else Inl GridIndex
      else Inl GridIndex)"

text \<open>\<open>v, ok := dungeon[col][row][key]\<close>: the lookup of a key, \<open>None\<close> when \<open>ok\<close> is false.\<close>

definition load :: "Dungeon \<Rightarrow> int \<Rightarrow> int \<Rightarrow> string \<Rightarrow> panic + int option" where
  "load D col row key =
     (if 0 \<le> col \<and> col < ColMax then
        if 0 \<le> row \<and> row < RowMax then Inr (D col row key) else Inl GridIndex
      else Inl GridIndex)"

text \<open>
  The body of \<open>if squareNumPlus1 != 0 { ... }\<close>, the same in both parsers
  (\<open>dun.go\<close> lines 237 to 243): the square is looked up with no check of the index, and
  its four pillars are written to the block at \<open>(col, row)\<close> in the order top, right,
  left, bottom.  A panic leaves the writes made before it in the dungeon.
\<close>

definition place_square ::
  "Square list \<Rightarrow> int \<Rightarrow> int \<Rightarrow> int \<Rightarrow> Dungeon \<Rightarrow> panic option \<times> Dungeon" where
  "place_square squares squareNumPlus1 col row D =
     (if squareNumPlus1 \<noteq> 0 then
        if 0 \<le> squareNumPlus1 - 1 \<and> squareNumPlus1 - 1 < int (length squares) then
          let square = squares ! nat (squareNumPlus1 - 1) in
          case store D col row ''pillarNum'' (PillarNumTop square) of
            Inl p \<Rightarrow> (Some p, D)
          | Inr D1 \<Rightarrow>
          case store D1 (col + 1) row ''pillarNum'' (PillarNumRight square) of
            Inl p \<Rightarrow> (Some p, D1)
          | Inr D2 \<Rightarrow>
          case store D2 col (row + 1) ''pillarNum'' (PillarNumLeft square) of
            Inl p \<Rightarrow> (Some p, D2)
          | Inr D3 \<Rightarrow>
          case store D3 (col + 1) (row + 1) ''pillarNum'' (PillarNumBottom square) of
            Inl p \<Rightarrow> (Some p, D3)
          | Inr D4 \<Rightarrow> (None, D4)
        else (Some SquaresIndex, D)
      else (None, D))"

section \<open>Collaborators outside the parsers\<close>

text \<open>
  The packages \<open>mpq\<close>, \<open>dunconf\<close>, \<open>til\<close> and the file system are not part of the sources.
  What they answer is a parameter of the model: each function returns either an error or
  its value.  \<open>os_Open\<close> gives the bytes of the opened file.
\<close>

record extern =
  mpq_GetPath :: "string \<Rightarrow> error + string"
  mpq_GetRelPath :: "string \<Rightarrow> error + string"
  os_Open :: "string \<Rightarrow> error + byte list"
  dunconf_GetColStart :: "string \<Rightarrow> error + int"
  dunconf_GetRowStart :: "string \<Rightarrow> error + int"
  til_Parse :: "string \<Rightarrow> error + Square list"

section \<open>Level names\<close>

text \<open>
  \<open>path.Split\<close> of the Go library: the path is cut right after its last slash; with no
  slash the directory is empty.
\<close>

definition path_Split :: "string \<Rightarrow> string \<times> string" where
  "path_Split p =
     (rev (dropWhile (\<lambda>c. c \<noteq> CHR ''/'') (rev p)),
      rev (takeWhile (\<lambda>c. c \<noteq> CHR ''/'') (rev p)))"

text \<open>
  \<open>GetLevelName\<close> (the same text in both packages) returns the pair
  \<open>(nameWithoutExt, err)\<close>.
\<close>

definition GetLevelName :: "extern \<Rightarrow> string \<Rightarrow> string \<times> error option" where
  "GetLevelName ext dunName =
     (case mpq_GetRelPath ext dunName of
        Inl err \<Rightarrow> ('''', Some err)
      | Inr relDunPath \<Rightarrow>
          let dunDir = fst (path_Split relDunPath) in
          if dunDir = ''levels/l1data/'' then (''l1'', None)
          else if dunDir = ''levels/l2data/'' then (''l2'', None)
          else if dunDir = ''levels/l3data/'' then (''l3'', None)
          else if dunDir = ''levels/l4data/'' then (''l4'', None)
          else if dunDir = ''levels/towndata/'' then (''town'', None)
          else ('''', Some (Errorf (''invalid dunDir ('' @ dunDir @ '').''))))"

section \<open>Reading the stream\<close>

text \<open>\<open>binary.LittleEndian.Uint16\<close>: the first byte is the low one.\<close>

definition le16 :: "byte \<Rightarrow> byte \<Rightarrow> 16 word" where
  "le16 b0 b1 = ucast b0 OR push_bit 8 (ucast b1)"

text \<open>
  \<open>binary.Read(fr, binary.LittleEndian, &x)\<close> for \<open>x uint16\<close> fills two bytes with
  \<open>io.ReadFull\<close>: no byte left is \<open>io.EOF\<close>, one byte left is \<open>io.ErrUnexpectedEOF\<close>.  The
  reader is the list of bytes not yet read.
\<close>

fun read_uint16 :: "byte list \<Rightarrow> error + (16 word \<times> byte list)" where
  "read_uint16 [] = Inl EOF"
| "read_uint16 [b0] = Inl ErrUnexpectedEOF"
| "read_uint16 (b0 # b1 # fr) = Inr (le16 b0 b1, fr)"

text \<open>The header \<open>var tmp [2]uint16\<close>, four bytes read at once.\<close>

fun read_header :: "byte list \<Rightarrow> error + (16 word \<times> 16 word \<times> byte list)" where
  "read_header [] = Inl EOF"
| "read_header (b0 # b1 # b2 # b3 # fr) = Inr (le16 b0 b1, le16 b2 b3, fr)"
| "read_header fr = Inl ErrUnexpectedEOF"

section \<open>Package dun: the parse of a DUN stream\<close>

text \<open>
  A loop of \<open>Parse\<close> either runs to its end, leaving the reader and the dungeon
  (\<open>Inr\<close>), or makes \<open>Parse\<close> itself end (\<open>Inl\<close>) with an outcome and the dungeon as
  written so far.  The first argument that is a \<open>nat\<close> counts the iterations that remain.

  The inner loop \<open>for j := 0; j < dunQWidth; j++\<close> over the squares of one row.
\<close>

fun squares_cols ::
  "Square list \<Rightarrow> nat \<Rightarrow> int \<Rightarrow> int \<Rightarrow> byte list \<Rightarrow> Dungeon
     \<Rightarrow> (outcome \<times> Dungeon) + (byte list \<times> Dungeon)" where
  "squares_cols squares 0 col row fr D = Inr (fr, D)"
| "squares_cols squares (Suc n) col row fr D =
     (case read_uint16 fr of
        Inl err \<Rightarrow> Inl (Ret (Some err), D)
      | Inr (x, fr') \<Rightarrow>
          (case place_square squares (uint x) col row D of
             (Some p, D') \<Rightarrow> Inl (Panic p, D')
           | (None, D') \<Rightarrow> squares_cols squares n (col + 2) row fr' D'))"

text \<open>The outer loop \<open>for i := 0; i < dunQHeight; i++\<close>; every row starts at \<open>colStart\<close>.\<close>

fun squares_rows ::
  "Square list \<Rightarrow> nat \<Rightarrow> nat \<Rightarrow> int \<Rightarrow> int \<Rightarrow> byte list \<Rightarrow> Dungeon
     \<Rightarrow> (outcome \<times> Dungeon) + (byte list \<times> Dungeon)" where
  "squares_rows squares 0 dunQWidth colStart row fr D = Inr (fr, D)"
| "squares_rows squares (Suc m) dunQWidth colStart row fr D =
     (case squares_cols squares dunQWidth colStart row fr D of
        Inl r \<Rightarrow> Inl r
      | Inr (fr', D') \<Rightarrow> squares_rows squares m dunQWidth colStart (row + 2) fr' D')"

text \<open>
  The four loops over the planes that follow (\<open>unknown\<close>, \<open>dunMonsterID\<close>,
  \<open>dunObjectID\<close>, \<open>transparency\<close>) have the same text but for the key they write.  The
  inner loop carries \<open>i\<close> and \<open>j\<close> for the test \<open>err == io.EOF && i == 0 && j == 0\<close>.
\<close>

fun plane_cols ::
  "string \<Rightarrow> nat \<Rightarrow> nat \<Rightarrow> nat \<Rightarrow> int \<Rightarrow> int \<Rightarrow> byte list \<Rightarrow> Dungeon
     \<Rightarrow> (outcome \<times> Dungeon) + (byte list \<times> Dungeon)" where
  "plane_cols key i j 0 col row fr D = Inr (fr, D)"
| "plane_cols key i j (Suc n) col row fr D =
     (case read_uint16 fr of
        Inl err \<Rightarrow>
          if err = EOF \<and> i = 0 \<and> j = 0 then Inl (Ret None, D)
          else Inl (Ret (Some err), D)
      | Inr (x, fr') \<Rightarrow>
          (case store D col row key (uint x) of
             Inl p \<Rightarrow> Inl (Panic p, D)
           | Inr D' \<Rightarrow> plane_cols key i (Suc j) n (col + 1) row fr' D'))"

fun plane_rows ::
  "string \<Rightarrow> nat \<Rightarrow> nat \<Rightarrow> nat \<Rightarrow> int \<Rightarrow> int \<Rightarrow> byte list \<Rightarrow> Dungeon
     \<Rightarrow> (outcome \<times> Dungeon) + (byte list \<times> Dungeon)" where
  "plane_rows key i 0 dunWidth colStart row fr D = Inr (fr, D)"
| "plane_rows key i (Suc m) dunWidth colStart row fr D =
     (case plane_cols key i 0 dunWidth colStart row fr D of
        Inl r \<Rightarrow> Inl r
      | Inr (fr', D') \<Rightarrow> plane_rows key (Suc i) m dunWidth colStart (row + 1) fr' D')"

text \<open>
  The part of \<open>Parse\<close> after \<open>til.Parse\<close>: the plane of squares, then the four planes of
  cell data.
\<close>

definition parse_planes ::
  "Square list \<Rightarrow> nat \<Rightarrow> nat \<Rightarrow> int \<Rightarrow> int \<Rightarrow> byte list \<Rightarrow> Dungeon \<Rightarrow> outcome \<times> Dungeon" where
  "parse_planes squares dunQWidth dunQHeight colStart rowStart fr D =
     (case squares_rows squares dunQHeight dunQWidth colStart rowStart fr D of
        Inl r \<Rightarrow> r
      | Inr (fr1, D1) \<Rightarrow>
     let dunWidth = 2 * dunQWidth; dunHeight = 2 * dunQHeight in
     case plane_rows ''unknown'' 0 dunHeight dunWidth colStart rowStart fr1 D1 of
        Inl r \<Rightarrow> r
      | Inr (fr2, D2) \<Rightarrow>
     case plane_rows ''dunMonsterID'' 0 dunHeight dunWidth colStart rowStart fr2 D2 of
        Inl r \<Rightarrow> r
      | Inr (fr3, D3) \<Rightarrow>
     case plane_rows ''dunObjectID'' 0 dunHeight dunWidth colStart rowStart fr3 D3 of
        Inl r \<Rightarrow> r
      | Inr (fr4, D4) \<Rightarrow>
     case plane_rows ''transparency'' 0 dunHeight dunWidth colStart rowStart fr4 D4 of
        Inl r \<Rightarrow> r
      | Inr (fr5, D5) \<Rightarrow> (Ret None, D5))"

text \<open>\<open>func (dungeon *Dungeon) Parse(dunName string) (err error)\<close> of package \<open>dun\<close>.\<close>

definition Parse :: "extern \<Rightarrow> string \<Rightarrow> Dungeon \<Rightarrow> outcome \<times> Dungeon" where
  "Parse ext dunName D =
     (case mpq_GetPath ext dunName of Inl err \<Rightarrow> (Ret (Some err), D) | Inr dunPath \<Rightarrow>
      case os_Open ext dunPath of Inl err \<Rightarrow> (Ret (Some err), D) | Inr fr \<Rightarrow>
      case read_header fr of Inl err \<Rightarrow> (Ret (Some err), D) | Inr (w, h, body) \<Rightarrow>
      let dunQWidth = unat w; dunQHeight = unat h in
      case dunconf_GetColStart ext dunName of Inl err \<Rightarrow> (Ret (Some err), D) | Inr colStart \<Rightarrow>
      case dunconf_GetRowStart ext dunName of Inl err \<Rightarrow> (Ret (Some err), D) | Inr rowStart \<Rightarrow>
      case GetLevelName ext dunName of
        (nameWithoutExt, Some err) \<Rightarrow> (Ret (Some err), D)
      | (nameWithoutExt, None) \<Rightarrow>
      case til_Parse ext (nameWithoutExt @ ''.til'') of
        Inl err \<Rightarrow> (Ret (Some err), D)
      | Inr squares \<Rightarrow> parse_planes squares dunQWidth dunQHeight colStart rowStart body D)"

section \<open>Package dunmini: the parse of a buffer of square ids\<close>

text \<open>
  The inner loop \<open>for i := 0; i < rowCount; i++\<close>: it walks down one column of blocks,
  \<open>row\<close> growing by two, and reads \<open>squareIDsPlus1[k]\<close> with no check of \<open>k\<close>.
\<close>

fun dunmini_rows ::
  "Square list \<Rightarrow> byte list \<Rightarrow> nat \<Rightarrow> nat \<Rightarrow> int \<Rightarrow> int \<Rightarrow> Dungeon
     \<Rightarrow> (outcome \<times> Dungeon) + (nat \<times> Dungeon)" where
  "dunmini_rows squares squareIDsPlus1 0 k col row D = Inr (k, D)"
| "dunmini_rows squares squareIDsPlus1 (Suc n) k col row D =
     (if k < length squareIDsPlus1 then
        (case place_square squares (uint (squareIDsPlus1 ! k)) col row D of
           (Some p, D') \<Rightarrow> Inl (Panic p, D')
         | (None, D') \<Rightarrow> dunmini_rows squares squareIDsPlus1 n (Suc k) col (row + 2) D')
      else Inl (Panic BufferIndex, D))"

text \<open>The outer loop \<open>for j := 0; j < colCount; j++\<close>, \<open>col\<close> growing by two.\<close>

fun dunmini_cols ::
  "Square list \<Rightarrow> byte list \<Rightarrow> nat \<Rightarrow> nat \<Rightarrow> nat \<Rightarrow> int \<Rightarrow> int \<Rightarrow> Dungeon
     \<Rightarrow> (outcome \<times> Dungeon) + (nat \<times> Dungeon)" where
  "dunmini_cols squares squareIDsPlus1 0 rowCount k col rowStart D = Inr (k, D)"
| "dunmini_cols squares squareIDsPlus1 (Suc m) rowCount k col rowStart D =
     (case dunmini_rows squares squareIDsPlus1 rowCount k col rowStart D of
        Inl r \<Rightarrow> Inl r
      | Inr (k', D') \<Rightarrow> dunmini_cols squares squareIDsPlus1 m rowCount k' (col + 2) rowStart D')"

text \<open>
  \<open>func (dungeon *Dungeon) Parse(squareIDsPlus1 []uint8, colCount, rowCount int)\<close> of
  package \<open>dunmini\<close>.  A count that is not positive gives a loop that does not run.
\<close>

definition dunmini_Parse ::
  "extern \<Rightarrow> byte list \<Rightarrow> int \<Rightarrow> int \<Rightarrow> Dungeon \<Rightarrow> outcome \<times> Dungeon" where
  "dunmini_Parse ext squareIDsPlus1 colCount rowCount D =
     (let colStart = 0; rowStart = 0 in
      case til_Parse ext ''l1.til'' of
        Inl err \<Rightarrow> (Ret (Some err), D)
      | Inr squares \<Rightarrow>
          (case dunmini_cols squares squareIDsPlus1 (nat colCount) (nat rowCount) 0
                  colStart rowStart D of
             Inl r \<Rightarrow> r
           | Inr (k, D') \<Rightarrow> (Ret None, D')))"

section \<open>Package dunmini: the compositor\<close>

text \<open>
  \<open>image.Rectangle\<close> with its corners \<open>Min\<close> and \<open>Max\<close>, and \<open>image.Rect\<close>, which swaps
  the coordinates of an axis when the minimum is above the maximum.
\<close>

record Rectangle =
  MinX :: int
  MinY :: int
  MaxX :: int
  MaxY :: int

definition image_Rect :: "int \<Rightarrow> int \<Rightarrow> int \<Rightarrow> int \<Rightarrow> Rectangle" where
  "image_Rect x0 y0 x1 y1 =
     \<lparr>MinX = (if x0 > x1 then x1 else x0), MinY = (if y0 > y1 then y1 else y0),
      MaxX = (if x0 > x1 then x0 else x1), MaxY = (if y0 > y1 then y0 else y1)\<rparr>"

text \<open>
  The constants \<open>min.BlockWidth\<close>, \<open>min.BlockHeight\<close> and \<open>min.PillarWidth\<close> are declared in
  the package \<open>configs/min\<close>, which is not among the sources: they are parameters.
\<close>

record min_consts =
  BlockWidth :: int
  BlockHeight :: int
  PillarWidth :: int

text \<open>\<open>GetPillarRect\<close>; the division of Go truncates towards zero (\<open>sdiv\<close>).\<close>

definition GetPillarRect :: "min_consts \<Rightarrow> int \<Rightarrow> int \<Rightarrow> int \<Rightarrow> int \<Rightarrow> Rectangle" where
  "GetPillarRect m col row mapWidth pillarHeight =
     (let minX = mapWidth sdiv 2 - BlockWidth m - row * BlockWidth m + col * BlockWidth m;
          minY = row * (BlockHeight m sdiv 2) + col * (BlockHeight m sdiv 2);
          maxX = minX + PillarWidth m;
          maxY = minY + pillarHeight
      in image_Rect minX minY maxX maxY)"

text \<open>Pillar ids and arch ids for layout 1.\<close>

definition PillarIDFloorShadowArchSe_1 :: int where "PillarIDFloorShadowArchSe_1 = 10"
definition PillarIDFloorShadowArchSe_2 :: int where "PillarIDFloorShadowArchSe_2 = 248"
definition PillarIDFloorShadowArchSe_3 :: int where "PillarIDFloorShadowArchSe_3 = 324"
definition PillarIDFloorShadowArchSe_4 :: int where "PillarIDFloorShadowArchSe_4 = 330"
definition PillarIDFloorShadowArchSe_5 :: int where "PillarIDFloorShadowArchSe_5 = 343"
definition PillarIDFloorShadowArchSe_6 :: int where "PillarIDFloorShadowArchSe_6 = 420"
definition PillarIDFloorShadowArchSw2_1 :: int where "PillarIDFloorShadowArchSw2_1 = 258"
definition PillarIDFloorShadowArchSwBroken2_1 :: int where
  "PillarIDFloorShadowArchSwBroken2_1 = 254"
definition PillarIDFloorShadowArchSw_1 :: int where "PillarIDFloorShadowArchSw_1 = 11"
definition PillarIDFloorShadowArchSw_2 :: int where "PillarIDFloorShadowArchSw_2 = 70"
definition PillarIDFloorShadowArchSw_3 :: int where "PillarIDFloorShadowArchSw_3 = 210"
definition PillarIDFloorShadowArchSw_4 :: int where "PillarIDFloorShadowArchSw_4 = 320"
definition PillarIDFloorShadowArchSw_5 :: int where "PillarIDFloorShadowArchSw_5 = 340"
definition PillarIDFloorShadowArchSw_6 :: int where "PillarIDFloorShadowArchSw_6 = 417"

definition ArchSe :: int where "ArchSe = 1"
definition ArchSw :: int where "ArchSw = 0"
definition ArchSw2 :: int where "ArchSw2 = 4"
definition ArchSwBroken2 :: int where "ArchSwBroken2 = 3"

text \<open>\<open>getArchID\<close> returns \<open>(archID, ok)\<close>; the cases of the \<open>switch\<close> in their order.\<close>

definition getArchID :: "int \<Rightarrow> int \<times> bool" where
  "getArchID pillarID =
     (if pillarID \<in> {PillarIDFloorShadowArchSw_1, PillarIDFloorShadowArchSw_2,
                      PillarIDFloorShadowArchSw_3, PillarIDFloorShadowArchSw_4,
                      PillarIDFloorShadowArchSw_5, PillarIDFloorShadowArchSw_6}
      then (ArchSw, True)
      else if pillarID \<in> {PillarIDFloorShadowArchSe_1, PillarIDFloorShadowArchSe_2,
                           PillarIDFloorShadowArchSe_3, PillarIDFloorShadowArchSe_4,
                           PillarIDFloorShadowArchSe_5, PillarIDFloorShadowArchSe_6}
      then (ArchSe, True)
      else if pillarID = PillarIDFloorShadowArchSwBroken2_1 then (ArchSwBroken2, True)
      else if pillarID = PillarIDFloorShadowArchSw2_1 then (ArchSw2, True)
      else (0, False))"

text \<open>
  Modelled from the spec: \<open>min.Pillar\<close> is declared in the package \<open>configs/min\<close>, not
  among the sources; a pillar exposes its height and the raster it makes from the
  decoded frames.  The raster type \<open>'img\<close> stands for \<open>image.Image\<close>; \<open>PillarImage\<close> is
  the value of \<open>pillar.Image(levelFrames)\<close> for the frames of the call.
\<close>

record 'img Pillar =
  Height :: int
  PillarImage :: "'img"

text \<open>
  The canvas \<open>dst\<close> is its bounds and the calls of
  \<open>draw.Draw(dst, rect, src, image.ZP, draw.Over)\<close> made on it, in their order.
\<close>

datatype 'img drawop = DrawOver Rectangle "'img"

record 'img canvas =
  Bounds :: Rectangle
  Drawn :: "'img drawop list"

text \<open>Go's slice index \<open>xs[i]\<close> for an \<open>int\<close> index: out of range is a panic.\<close>

definition index :: "'a list \<Rightarrow> int \<Rightarrow> panic \<Rightarrow> panic + 'a" where
  "index xs i p = (if 0 \<le> i \<and> i < int (length xs) then Inr (xs ! nat i) else Inl p)"

text \<open>
  The inner loop \<open>for col := 0; col < colCount; col++\<close> of \<open>Image\<close>, with the calls of
  \<open>draw.Draw\<close> made so far as its state.
\<close>

fun image_cols ::
  "min_consts \<Rightarrow> Dungeon \<Rightarrow> 'img Pillar list \<Rightarrow> 'img list \<Rightarrow> int \<Rightarrow> int
     \<Rightarrow> nat \<Rightarrow> int \<Rightarrow> int \<Rightarrow> 'img drawop list \<Rightarrow> panic + 'img drawop list" where
  "image_cols m D pillars arches mapWidth pillarHeight 0 col row dst = Inr dst"
| "image_cols m D pillars arches mapWidth pillarHeight (Suc n) col row dst =
     (case load D col row ''pillarNum'' of
        Inl p \<Rightarrow> Inl p
      | Inr None \<Rightarrow> image_cols m D pillars arches mapWidth pillarHeight n (col + 1) row dst
      | Inr (Some pillarNum) \<Rightarrow>
          let rect = GetPillarRect m col row mapWidth pillarHeight in
          (case index pillars pillarNum PillarsIndex of
             Inl p \<Rightarrow> Inl p
           | Inr pillar \<Rightarrow>
               let dst1 = dst @ [DrawOver rect (PillarImage pillar)] in
               (case getArchID pillarNum of
                  (archID, True) \<Rightarrow>
                    (case index arches archID ArchesIndex of
                       Inl p \<Rightarrow> Inl p
                     | Inr arch \<Rightarrow>
                         image_cols m D pillars arches mapWidth pillarHeight n (col + 1) row
                           (dst1 @ [DrawOver rect arch]))
                | (archID, False) \<Rightarrow>
                    image_cols m D pillars arches mapWidth pillarHeight n (col + 1) row dst1)))"

text \<open>The outer loop \<open>for row := 0; row < rowCount; row++\<close>.\<close>

fun image_rows ::
  "min_consts \<Rightarrow> Dungeon \<Rightarrow> 'img Pillar list \<Rightarrow> 'img list \<Rightarrow> int \<Rightarrow> int
     \<Rightarrow> nat \<Rightarrow> nat \<Rightarrow> int \<Rightarrow> 'img drawop list \<Rightarrow> panic + 'img drawop list" where
  "image_rows m D pillars arches mapWidth pillarHeight 0 colCount row dst = Inr dst"
| "image_rows m D pillars arches mapWidth pillarHeight (Suc n) colCount row dst =
     (case image_cols m D pillars arches mapWidth pillarHeight colCount 0 row dst of
        Inl p \<Rightarrow> Inl p
      | Inr dst' \<Rightarrow>
          image_rows m D pillars arches mapWidth pillarHeight n colCount (row + 1) dst')"

text \<open>
  The package \<open>images/cel\<close>, which decodes the overlay rasters, is not part of the
  sources: what \<open>cel.GetConf\<close> and \<open>cel.DecodeAll\<close> answer is a parameter.
\<close>

record ('img, 'conf) cel_extern =
  cel_GetConf :: "string \<Rightarrow> string \<Rightarrow> error + 'conf"
  cel_DecodeAll :: "string \<Rightarrow> 'conf \<Rightarrow> error + 'img list"

text \<open>
  How a call of the compositor ends when it returns no image: a panic, or the end of the
  process by \<open>log.Fatalln\<close>.
\<close>

datatype stop = Panics panic | Fatal error

text \<open>
  \<open>Image\<close>.  The package variable \<open>arches\<close> is state passed in and out: \<open>None\<close> is the
  nil slice of a process that has not decoded the overlays yet, and a decoded list is
  kept for the calls that follow.  \<open>image.NewRGBA\<close> takes the rectangle
  \<open>image.Rect(0, 0, mapWidth, mapHeight)\<close>.
\<close>

definition dunmini_Image ::
  "min_consts \<Rightarrow> ('img, 'conf) cel_extern \<Rightarrow> 'img list option \<Rightarrow> Dungeon \<Rightarrow> int \<Rightarrow> int
     \<Rightarrow> 'img Pillar list \<Rightarrow> stop + ('img canvas \<times> 'img list option)" where
  "dunmini_Image m cel arches D colCount rowCount pillars =
     (case (case arches of
              Some decoded \<Rightarrow> Inr decoded
            | None \<Rightarrow>
                (case cel_GetConf cel ''l1s.cel'' ''levels/l1data/l1.pal'' of
                   Inl err \<Rightarrow> Inl (Fatal err)
                 | Inr conf \<Rightarrow>
                     (case cel_DecodeAll cel ''l1s.cel'' conf of
                        Inl err \<Rightarrow> Inl (Fatal err)
                      | Inr decoded \<Rightarrow> Inr decoded))) of
        Inl fatal \<Rightarrow> Inl fatal
      | Inr arches' \<Rightarrow>
     (case index pillars 0 PillarsIndex of
        Inl p \<Rightarrow> Inl (Panics p)
      | Inr pillar0 \<Rightarrow>
          let pillarHeight = Height pillar0;
              maxCount = (if rowCount > colCount then rowCount else colCount);
              mapWidth = maxCount * BlockWidth m + maxCount * BlockWidth m;
              mapHeight = maxCount * (BlockHeight m sdiv 2) + maxCount * (BlockHeight m sdiv 2)
                          + (pillarHeight - BlockHeight m)
          in (case image_rows m D pillars arches' mapWidth pillarHeight
                     (nat rowCount) (nat colCount) 0 [] of
                Inl p \<Rightarrow> Inl (Panics p)
              | Inr dst \<Rightarrow>
                  Inr (\<lparr>Bounds = image_Rect 0 0 mapWidth mapHeight, Drawn = dst\<rparr>,
                       Some arches'))))"

section \<open>The plane of squares as a sequence of blocks\<close>

text \<open>
  The description of the format reads the plane of squares as one sequence: one value
  is read per step, and the value of step \<open>k\<close> is placed at the block whose origin is the
  entry \<open>k\<close> of a list of origins.  \<open>place_seq\<close> is that reading, for any source \<open>rd\<close> of
  values: \<open>stream_rd\<close> takes a 16-bit value from the stream, \<open>buffer_rd\<close> takes the byte at
  index \<open>k\<close> of the buffer.
\<close>

definition stream_rd :: "byte list \<Rightarrow> outcome + (int \<times> byte list)" where
  "stream_rd fr =
     (case read_uint16 fr of
        Inl err \<Rightarrow> Inl (Ret (Some err))
      | Inr (x, fr') \<Rightarrow> Inr (uint x, fr'))"

definition buffer_rd :: "byte list \<Rightarrow> nat \<Rightarrow> outcome + (int \<times> nat)" where
  "buffer_rd squareIDsPlus1 k =
     (if k < length squareIDsPlus1 then Inr (uint (squareIDsPlus1 ! k), Suc k)
      else Inl (Panic BufferIndex))"

fun place_seq ::
  "('s \<Rightarrow> outcome + (int \<times> 's)) \<Rightarrow> Square list \<Rightarrow> (int \<times> int) list \<Rightarrow> 's \<Rightarrow> Dungeon
     \<Rightarrow> (outcome \<times> Dungeon) + ('s \<times> Dungeon)" where
  "place_seq rd squares [] s D = Inr (s, D)"
| "place_seq rd squares ((col, row) # blocks) s D =
     (case rd s of
        Inl out \<Rightarrow> Inl (out, D)
      | Inr (v, s') \<Rightarrow>
          (case place_square squares v col row D of
             (Some p, D') \<Rightarrow> Inl (Panic p, D')
           | (None, D') \<Rightarrow> place_seq rd squares blocks s' D'))"

text \<open>
  The origins of the blocks in the order of the two parsers: row after row for the
  stream, column after column for the buffer.
\<close>

definition square_blocks :: "nat \<Rightarrow> nat \<Rightarrow> int \<Rightarrow> int \<Rightarrow> (int \<times> int) list" where
  "square_blocks dunQWidth dunQHeight colStart rowStart =
     map (\<lambda>k. (colStart + 2 * int (k mod dunQWidth), rowStart + 2 * int (k div dunQWidth)))
       [0..<dunQWidth * dunQHeight]"

definition dunmini_blocks :: "nat \<Rightarrow> nat \<Rightarrow> (int \<times> int) list" where
  "dunmini_blocks colCount rowCount =
     map (\<lambda>k. (2 * int (k div rowCount), 2 * int (k mod rowCount))) [0..<rowCount * colCount]"

text \<open>
  The 16-bit values of a stream, as far as it holds whole values, and the values that a
  source yields in its first \<open>n\<close> reads.
\<close>

fun u16s :: "byte list \<Rightarrow> 16 word list" where
  "u16s (b0 # b1 # fr) = le16 b0 b1 # u16s fr"
| "u16s fr = []"

fun reads :: "('s \<Rightarrow> outcome + (int \<times> 's)) \<Rightarrow> nat \<Rightarrow> 's \<Rightarrow> int list" where
  "reads rd 0 s = []"
| "reads rd (Suc n) s = (case rd s of Inl out \<Rightarrow> [] | Inr (v, s') \<Rightarrow> v # reads rd n s')"

text \<open>
  A block, or a cell, that lies within the array; the dungeon with the four pillars of a
  square written to a block; the dungeon left by a loop, however it ended.
\<close>

definition block_in_grid :: "int \<Rightarrow> int \<Rightarrow> bool" where
  "block_in_grid col row \<longleftrightarrow> 0 \<le> col \<and> col + 1 < ColMax \<and> 0 \<le> row \<and> row + 1 < RowMax"

definition in_grid :: "int \<Rightarrow> int \<Rightarrow> bool" where
  "in_grid col row \<longleftrightarrow> 0 \<le> col \<and> col < ColMax \<and> 0 \<le> row \<and> row < RowMax"

definition put_square :: "Square \<Rightarrow> int \<Rightarrow> int \<Rightarrow> Dungeon \<Rightarrow> Dungeon" where
  "put_square square col row D =
     (\<lambda>c r.
        if c = col \<and> r = row then (D c r)(''pillarNum'' \<mapsto> PillarNumTop square)
        else if c = col + 1 \<and> r = row then (D c r)(''pillarNum'' \<mapsto> PillarNumRight square)
        else if c = col \<and> r = row + 1 then (D c r)(''pillarNum'' \<mapsto> PillarNumLeft square)
        else if c = col + 1 \<and> r = row + 1 then (D c r)(''pillarNum'' \<mapsto> PillarNumBottom square)
        else D c r)"

definition dungeon_of :: "(outcome \<times> Dungeon) + ('s \<times> Dungeon) \<Rightarrow> Dungeon" where
  "dungeon_of r = (case r of Inl (out, D) \<Rightarrow> D | Inr (s, D) \<Rightarrow> D)"

text \<open>
  The \<open>pillarNum\<close> that a grid with the one square \<open>square\<close> at the block with origin
  \<open>(c, r)\<close> is to hold at the cell \<open>(col, row)\<close>: the top pillar at \<open>(c, r)\<close>, the right one at
  \<open>(c + 1, r)\<close>, the left one at \<open>(c, r + 1)\<close>, the bottom one at \<open>(c + 1, r + 1)\<close>, and none
  anywhere else.
\<close>

definition four_cells :: "Square \<Rightarrow> int \<Rightarrow> int \<Rightarrow> int \<Rightarrow> int \<Rightarrow> int option" where
  "four_cells square c r col row =
     (if col = c \<and> row = r then Some (PillarNumTop square)
      else if col = c + 1 \<and> row = r then Some (PillarNumRight square)
      else if col = c \<and> row = r + 1 then Some (PillarNumLeft square)
      else if col = c + 1 \<and> row = r + 1 then Some (PillarNumBottom square)
      else None)"

section \<open>The planes of cell data as sequences of cells\<close>

text \<open>
  A plane of cell data read as one sequence of cells, one 16-bit value per cell; \<open>first\<close>
  tells that no value of the plane has been read yet, the only place where the end of the
  input makes \<open>Parse\<close> return \<open>nil\<close>.  \<open>plane_cells\<close> are the cells of a plane, row after row,
  and \<open>planes_seq\<close> reads a plane for each key of a list, so that the planes of \<open>Parse\<close>
  are those of \<open>plane_keys\<close> and a shorter list of keys is a parse that reads fewer planes.
\<close>

fun store_seq ::
  "string \<Rightarrow> bool \<Rightarrow> (int \<times> int) list \<Rightarrow> byte list \<Rightarrow> Dungeon
     \<Rightarrow> (outcome \<times> Dungeon) + (byte list \<times> Dungeon)" where
  "store_seq key first [] fr D = Inr (fr, D)"
| "store_seq key first ((col, row) # cells) fr D =
     (case read_uint16 fr of
        Inl err \<Rightarrow>
          if err = EOF \<and> first then Inl (Ret None, D) else Inl (Ret (Some err), D)
      | Inr (x, fr') \<Rightarrow>
          (case store D col row key (uint x) of
             Inl p \<Rightarrow> Inl (Panic p, D)
           | Inr D' \<Rightarrow> store_seq key False cells fr' D'))"

definition plane_cells :: "nat \<Rightarrow> nat \<Rightarrow> int \<Rightarrow> int \<Rightarrow> (int \<times> int) list" where
  "plane_cells dunWidth dunHeight colStart rowStart =
     concat (map (\<lambda>i. map (\<lambda>j. (colStart + int j, rowStart + int i)) [0..<dunWidth])
               [0..<dunHeight])"

fun planes_seq ::
  "string list \<Rightarrow> (int \<times> int) list \<Rightarrow> byte list \<Rightarrow> Dungeon \<Rightarrow> outcome \<times> Dungeon" where
  "planes_seq [] cells fr D = (Ret None, D)"
| "planes_seq (key # keys) cells fr D =
     (case store_seq key True cells fr D of
        Inl r \<Rightarrow> r
      | Inr (fr', D') \<Rightarrow> planes_seq keys cells fr' D')"

abbreviation plane_keys :: "string list" where
  "plane_keys \<equiv> [''unknown'', ''dunMonsterID'', ''dunObjectID'', ''transparency'']"

section \<open>Opening the file\<close>

text \<open>
  What the calls of \<open>Parse\<close> that come before its loops give when all of them succeed
  (\<open>opened\<close>): the file opens, its header gives \<open>dunQWidth\<close> and \<open>dunQHeight\<close> and leaves the
  bytes \<open>body\<close>, the configuration gives the offsets and \<open>til.Parse\<close> the table of squares.
\<close>

definition opened ::
  "extern \<Rightarrow> string \<Rightarrow> (nat \<times> nat \<times> int \<times> int \<times> Square list \<times> byte list) option" where
  "opened ext dunName =
     (case mpq_GetPath ext dunName of Inl err \<Rightarrow> None | Inr dunPath \<Rightarrow>
      case os_Open ext dunPath of Inl err \<Rightarrow> None | Inr fr \<Rightarrow>
      case read_header fr of Inl err \<Rightarrow> None | Inr (w, h, body) \<Rightarrow>
      case dunconf_GetColStart ext dunName of Inl err \<Rightarrow> None | Inr colStart \<Rightarrow>
      case dunconf_GetRowStart ext dunName of Inl err \<Rightarrow> None | Inr rowStart \<Rightarrow>
      case GetLevelName ext dunName of
        (nameWithoutExt, Some err) \<Rightarrow> None
      | (nameWithoutExt, None) \<Rightarrow>
      case til_Parse ext (nameWithoutExt @ ''.til'') of
        Inl err \<Rightarrow> None
      | Inr squares \<Rightarrow> Some (unat w, unat h, colStart, rowStart, squares, body))"

definition opens ::
  "extern \<Rightarrow> string \<Rightarrow> nat \<Rightarrow> nat \<Rightarrow> int \<Rightarrow> int \<Rightarrow> Square list \<Rightarrow> byte list \<Rightarrow> bool" where
  "opens ext dunName dunQWidth dunQHeight colStart rowStart squares body \<longleftrightarrow>
     opened ext dunName = Some (dunQWidth, dunQHeight, colStart, rowStart, squares, body)"

section \<open>The draws of one cell\<close>

text \<open>
  What the compositor is to draw for one cell, in the words of its description: nothing
  for a cell without \<open>pillarNum\<close>; else the raster of the pillar, drawn over the canvas
  at the rectangle of the cell, followed for the pillar ids of the floor shadows of
  arches (south-west, south-east, the broken south-west arch 2, the south-west arch 2)
  by the overlay raster of that arch at the same rectangle.
\<close>

definition cell_draws ::
  "min_consts \<Rightarrow> Dungeon \<Rightarrow> 'img Pillar list \<Rightarrow> 'img list \<Rightarrow> int \<Rightarrow> int \<Rightarrow> int \<Rightarrow> int
     \<Rightarrow> 'img drawop list" where
  "cell_draws m D pillars arches mapWidth pillarHeight col row =
     (case D col row ''pillarNum'' of
        None \<Rightarrow> []
      | Some p \<Rightarrow>
          let rect = GetPillarRect m col row mapWidth pillarHeight;
              base = DrawOver rect (PillarImage (pillars ! nat p))
          in if p \<in> {11, 70, 210, 320, 340, 417} then [base, DrawOver rect (arches ! 0)]
             else if p \<in> {10, 248, 324, 330, 343, 420} then [base, DrawOver rect (arches ! 1)]
             else if p = 254 then [base, DrawOver rect (arches ! 3)]
             else if p = 258 then [base, DrawOver rect (arches ! 4)]
             else [base])"

section \<open>Concrete inputs\<close>

text \<open>
  A resolver that knows two files, \<open>foo.dun\<close> under \<open>levels/l2data/\<close> and \<open>bar.dun\<close> under
  \<open>levels/unknown/\<close>, and no other name; it cannot open any file.
\<close>

definition ext_levels :: extern where
  "ext_levels =
     \<lparr>mpq_GetPath = (\<lambda>n. Inr (''mpqdump/'' @ n)),
      mpq_GetRelPath =
        (\<lambda>n. if n = ''foo.dun'' then Inr ''levels/l2data/foo.dun''
             else if n = ''bar.dun'' then Inr ''levels/unknown/bar.dun''
             else Inl (External ''no such name'')),
      os_Open = (\<lambda>p. Inl (External ''open'')),
      dunconf_GetColStart = (\<lambda>n. Inr 0),
      dunconf_GetRowStart = (\<lambda>n. Inr 0),
      til_Parse = (\<lambda>n. Inr [])\<rparr>"

text \<open>
  A dungeon of three cells: the south-west arch pillar 11 at \<open>(0, 0)\<close>, the plain pillar
  5 at \<open>(1, 0)\<close> and no pillar at \<open>(2, 0)\<close>; twelve pillars and a decoder that gives
  five overlays, rasters being numbers.
\<close>

definition dungeon_arch :: Dungeon where
  "dungeon_arch = (\<lambda>col row. if row = 0 \<and> col = 0 then [''pillarNum'' \<mapsto> 11]
                              else if row = 0 \<and> col = 1 then [''pillarNum'' \<mapsto> 5]
                              else Map.empty)"

definition pillars_arch :: "nat Pillar list" where
  "pillars_arch = map (\<lambda>i. \<lparr>Height = 160, PillarImage = i\<rparr>) [0..<12]"

definition cel_arch :: "(nat, unit) cel_extern" where
  "cel_arch = \<lparr>cel_GetConf = (\<lambda>imgName relPalPath. Inr ()),
               cel_DecodeAll = (\<lambda>imgName conf. Inr [100, 101, 102, 103, 104])\<rparr>"

definition min_32 :: min_consts where
  "min_32 = \<lparr>BlockWidth = 32, BlockHeight = 32, PillarWidth = 64\<rparr>"

text \<open>
  Collaborators that answer every name alike: the file holds the bytes \<open>fr\<close>, its relative
  path is \<open>levels/l1data/a.dun\<close>, the offsets and the table of squares are as given.
\<close>

definition ext_with :: "byte list \<Rightarrow> int \<Rightarrow> int \<Rightarrow> Square list \<Rightarrow> extern" where
  "ext_with fr colStart rowStart squares =
     \<lparr>mpq_GetPath = (\<lambda>n. Inr (''mpqdump/levels/l1data/'' @ n)),
      mpq_GetRelPath = (\<lambda>n. Inr ''levels/l1data/a.dun''),
      os_Open = (\<lambda>p. Inr fr),
      dunconf_GetColStart = (\<lambda>n. Inr colStart),
      dunconf_GetRowStart = (\<lambda>n. Inr rowStart),
      til_Parse = (\<lambda>n. Inr squares)\<rparr>"

definition sq_5678 :: Square where
  "sq_5678 = \<lparr>PillarNumTop = 5, PillarNumRight = 6, PillarNumLeft = 7, PillarNumBottom = 8\<rparr>"

section \<open>Constants\<close>

lemmas Max_defs = ColMax_def RowMax_def

lemmas PillarID_defs =
  PillarIDFloorShadowArchSe_1_def PillarIDFloorShadowArchSe_2_def
  PillarIDFloorShadowArchSe_3_def PillarIDFloorShadowArchSe_4_def
  PillarIDFloorShadowArchSe_5_def PillarIDFloorShadowArchSe_6_def
  PillarIDFloorShadowArchSw2_1_def PillarIDFloorShadowArchSwBroken2_1_def
  PillarIDFloorShadowArchSw_1_def PillarIDFloorShadowArchSw_2_def
  PillarIDFloorShadowArchSw_3_def PillarIDFloorShadowArchSw_4_def
  PillarIDFloorShadowArchSw_5_def PillarIDFloorShadowArchSw_6_def

lemmas Arch_defs = ArchSe_def ArchSw_def ArchSw2_def ArchSwBroken2_def

section \<open>Level names: properties\<close>

lemma path_Split_dir:
  assumes "CHR ''/'' \<notin> set base"
  shows "path_Split (dir @ ''/'' @ base) = (dir @ ''/'', base)"
proof -
  from assms have al: "\<forall>x\<in>set (rev base). x \<noteq> CHR ''/''"
    by fastforce
  then have tw: "takeWhile (\<lambda>c. c \<noteq> CHR ''/'') (rev base) = rev base"
    by (rule takeWhile_eq_all_conv [THEN iffD2])
  have dw: "dropWhile (\<lambda>c. c \<noteq> CHR ''/'') (rev base @ CHR ''/'' # rev dir) = CHR ''/'' # rev dir"
    using al by (simp add: dropWhile_append3)
  have tw2: "takeWhile (\<lambda>c. c \<noteq> CHR ''/'') (rev base @ CHR ''/'' # rev dir) = rev base"
    using tw by (simp add: takeWhile_tail del: takeWhile_eq_all_conv)
  show ?thesis
    by (simp add: path_Split_def dw tw2)
qed

text \<open>
  Claim C7.  The level name depends on the directory part of the relative path alone:
  the five directories \<open>levels/l1data/\<close>, \<open>levels/l2data/\<close>, \<open>levels/l3data/\<close>,
  \<open>levels/l4data/\<close> and \<open>levels/towndata/\<close> give \<open>l1\<close>, \<open>l2\<close>, \<open>l3\<close>, \<open>l4\<close> and \<open>town\<close> with
  no error; every other directory gives an error together with the empty name, and so
  does a name that has no relative path.  The directory part of \<open>dir/file\<close>, for a file
  name without a slash, is \<open>dir/\<close>.
\<close>

theorem GetLevelName_table:
  "(mpq_GetRelPath ext dunName = Inr relDunPath \<and> fst (path_Split relDunPath) = ''levels/l1data/''
      \<longrightarrow> GetLevelName ext dunName = (''l1'', None))
   \<and> (mpq_GetRelPath ext dunName = Inr relDunPath \<and> fst (path_Split relDunPath) = ''levels/l2data/''
      \<longrightarrow> GetLevelName ext dunName = (''l2'', None))
   \<and> (mpq_GetRelPath ext dunName = Inr relDunPath \<and> fst (path_Split relDunPath) = ''levels/l3data/''
      \<longrightarrow> GetLevelName ext dunName = (''l3'', None))
   \<and> (mpq_GetRelPath ext dunName = Inr relDunPath \<and> fst (path_Split relDunPath) = ''levels/l4data/''
      \<longrightarrow> GetLevelName ext dunName = (''l4'', None))
   \<and> (mpq_GetRelPath ext dunName = Inr relDunPath
      \<and> fst (path_Split relDunPath) = ''levels/towndata/''
      \<longrightarrow> GetLevelName ext dunName = (''town'', None))
   \<and> (mpq_GetRelPath ext dunName = Inr relDunPath
      \<and> fst (path_Split relDunPath) \<notin>
            {''levels/l1data/'', ''levels/l2data/'', ''levels/l3data/'',
             ''levels/l4data/'', ''levels/towndata/''}
      \<longrightarrow> fst (GetLevelName ext dunName) = [] \<and> snd (GetLevelName ext dunName) \<noteq> None)
   \<and> (mpq_GetRelPath ext dunName = Inl err \<longrightarrow> GetLevelName ext dunName = ([], Some err))
   \<and> (CHR ''/'' \<notin> set base \<longrightarrow> fst (path_Split (dir @ ''/'' @ base)) = dir @ ''/'')"
  using path_Split_dir [of base dir] by (auto simp add: GetLevelName_def Let_def)

theorem GetLevelName_table_witness:
  "mpq_GetRelPath ext_levels ''foo.dun'' = Inr ''levels/l2data/foo.dun''
   \<and> fst (path_Split ''levels/l2data/foo.dun'') = ''levels/l2data/''
   \<and> GetLevelName ext_levels ''foo.dun'' = (''l2'', None)
   \<and> mpq_GetRelPath ext_levels ''bar.dun'' = Inr ''levels/unknown/bar.dun''
   \<and> fst (path_Split ''levels/unknown/bar.dun'') = ''levels/unknown/''
   \<and> fst (GetLevelName ext_levels ''bar.dun'') = []
   \<and> snd (GetLevelName ext_levels ''bar.dun'') \<noteq> None
   \<and> mpq_GetRelPath ext_levels ''baz.dun'' = Inl (External ''no such name'')
   \<and> GetLevelName ext_levels ''baz.dun'' = ([], Some (External ''no such name''))
   \<and> CHR ''/'' \<notin> set ''foo.dun''
   \<and> fst (path_Split (''levels/l2data'' @ ''/'' @ ''foo.dun'')) = ''levels/l2data'' @ ''/''"
proof -
  have a: "mpq_GetRelPath ext_levels ''foo.dun'' = Inr ''levels/l2data/foo.dun''"
    by (simp add: ext_levels_def)
  have b: "mpq_GetRelPath ext_levels ''bar.dun'' = Inr ''levels/unknown/bar.dun''"
    by (simp add: ext_levels_def)
  have c: "fst (path_Split ''levels/l2data/foo.dun'') = ''levels/l2data/''"
    by (simp add: path_Split_def)
  have d: "fst (path_Split ''levels/unknown/bar.dun'') = ''levels/unknown/''"
    by (simp add: path_Split_def)
  have e: "mpq_GetRelPath ext_levels ''baz.dun'' = Inl (External ''no such name'')"
    by (simp add: ext_levels_def)
  from GetLevelName_table
         [where ext = ext_levels and dunName = "''foo.dun''"
            and relDunPath = "''levels/l2data/foo.dun''" and base = "''foo.dun''"
            and dir = "''levels/l2data''"]
       GetLevelName_table
         [where ext = ext_levels and dunName = "''bar.dun''"
            and relDunPath = "''levels/unknown/bar.dun''"]
       GetLevelName_table
         [where ext = ext_levels and dunName = "''baz.dun''"
            and err = "External ''no such name''"]
       a b c d e
  show ?thesis
    by simp
qed

section \<open>The rectangle of a pillar\<close>



section \<open>The compositor\<close>

lemma getArchID_cases:
  "getArchID p =
     (if p \<in> {11, 70, 210, 320, 340, 417} then (0, True)
      else if p \<in> {10, 248, 324, 330, 343, 420} then (1, True)
      else if p = 254 then (3, True)
      else if p = 258 then (4, True)
      else (0, False))"
  by (simp add: getArchID_def PillarID_defs Arch_defs)

lemma upt_Suc_map: "map f [0..<Suc n] = f 0 # map (\<lambda>j. f (Suc j)) [0..<n]"
  by (simp only: upt_conv_Cons zero_less_Suc list.map map_Suc_upt [symmetric] map_map o_def)

lemma image_cols_step:
  assumes "image_cols m D pillars arches mw ph (Suc n) col row dst = Inr dst'"
  shows "\<exists>dst1. dst1 = dst @ cell_draws m D pillars arches mw ph col row
            \<and> image_cols m D pillars arches mw ph n (col + 1) row dst1 = Inr dst'"
  using assms
  by (auto simp add: cell_draws_def getArchID_cases index_def load_def Let_def
           split: sum.splits option.splits if_splits)

lemma image_cols_draws:
  "image_cols m D pillars arches mw ph n col row dst = Inr dst' \<Longrightarrow>
   dst' = dst @ concat (map (\<lambda>j. cell_draws m D pillars arches mw ph (col + int j) row) [0..<n])"
proof (induction n arbitrary: col dst)
  case 0
  then show ?case by simp
next
  case (Suc n)
  from image_cols_step [OF Suc.prems]
  have st: "image_cols m D pillars arches mw ph n (col + 1) row
              (dst @ cell_draws m D pillars arches mw ph col row) = Inr dst'"
    by simp
  from Suc.IH [OF st] show ?case
    by (simp add: upt_Suc_map add.assoc del: upt_Suc)
qed

lemma image_rows_draws:
  "image_rows m D pillars arches mw ph n colCount row dst = Inr dst' \<Longrightarrow>
   dst' = dst @ concat (map (\<lambda>i. concat (map (\<lambda>j. cell_draws m D pillars arches mw ph (int j) (row + int i))
                                   [0..<colCount])) [0..<n])"
proof (induction n arbitrary: row dst)
  case 0
  then show ?case by simp
next
  case (Suc n)
  from Suc.prems obtain dst1 where
    a: "image_cols m D pillars arches mw ph colCount 0 row dst = Inr dst1" and
    b: "image_rows m D pillars arches mw ph n colCount (row + 1) dst1 = Inr dst'"
    by (auto split: sum.splits)
  from image_cols_draws [OF a] Suc.IH [OF b] show ?case
    by (simp add: upt_Suc_map add.assoc del: upt_Suc)
qed

text \<open>
  Claim C6.  When \<open>Image\<close> returns its canvas, the overlay rasters are decoded (those of
  an earlier call, or the ones decoded by this call), and the draws made on the canvas
  are, row after row and column after column, those of each cell: for a cell with a
  \<open>pillarNum\<close>, the raster of the pillar drawn over the canvas at the rectangle of the cell
  and, exactly when the pillar id is one of the floor shadows of arches, the overlay
  raster of its arch drawn next over the same rectangle; for a pillar id outside that set
  the pillar raster alone.
\<close>

theorem Image_arch_overlay:
  assumes "dunmini_Image m cel arches D colCount rowCount pillars = Inr (cv, arches')"
  shows "\<exists>decoded. arches' = Some decoded \<and> (arches = None \<or> arches = Some decoded)
           \<and> Drawn cv =
                concat (map (\<lambda>i. concat (map (\<lambda>j.
                    cell_draws m D pillars decoded (2 * (max colCount rowCount * BlockWidth m))
                      (Height (pillars ! 0)) (int j) (int i))
                  [0..<nat colCount])) [0..<nat rowCount])"
proof -
  define mw where "mw = 2 * (max colCount rowCount * BlockWidth m)"
  have mx: "(if colCount < rowCount then rowCount else colCount) * BlockWidth m
            + (if colCount < rowCount then rowCount else colCount) * BlockWidth m = mw"
    by (simp add: mw_def max_def)
  from assms have "\<exists>decoded dst. arches' = Some decoded \<and> (arches = None \<or> arches = Some decoded)
       \<and> image_rows m D pillars decoded mw (Height (pillars ! 0))
             (nat rowCount) (nat colCount) 0 [] = Inr dst \<and> Drawn cv = dst"
    unfolding dunmini_Image_def Let_def mx
    by (auto simp add: index_def split: sum.splits if_splits option.splits)
  then obtain decoded dst where
    d: "arches' = Some decoded" "arches = None \<or> arches = Some decoded" and
    a: "image_rows m D pillars decoded mw (Height (pillars ! 0))
          (nat rowCount) (nat colCount) 0 [] = Inr dst" and
    b: "Drawn cv = dst"
    by blast
  from image_rows_draws [OF a] b d show ?thesis
    by (simp add: mw_def)
qed

theorem Image_arch_overlay_witness:
  "dunmini_Image min_32 cel_arch None dungeon_arch 3 1 pillars_arch =
     Inr (\<lparr>Bounds = \<lparr>MinX = 0, MinY = 0, MaxX = 192, MaxY = 224\<rparr>,
           Drawn = [DrawOver \<lparr>MinX = 64, MinY = 0, MaxX = 128, MaxY = 160\<rparr> 11,
                    DrawOver \<lparr>MinX = 64, MinY = 0, MaxX = 128, MaxY = 160\<rparr> 100,
                    DrawOver \<lparr>MinX = 96, MinY = 16, MaxX = 160, MaxY = 176\<rparr> 5]\<rparr>,
          Some [100, 101, 102, 103, 104])
   \<and> concat (map (\<lambda>i. concat (map (\<lambda>j.
               cell_draws min_32 dungeon_arch pillars_arch [100, 101, 102, 103, 104]
                 (2 * (max 3 1 * BlockWidth min_32)) (Height (pillars_arch ! 0)) (int j) (int i))
             [0..<nat 3])) [0..<nat 1])
      = [DrawOver \<lparr>MinX = 64, MinY = 0, MaxX = 128, MaxY = 160\<rparr> 11,
         DrawOver \<lparr>MinX = 64, MinY = 0, MaxX = 128, MaxY = 160\<rparr> 100,
         DrawOver \<lparr>MinX = 96, MinY = 16, MaxX = 160, MaxY = 176\<rparr> 5]"
proof -
  have a: "dunmini_Image min_32 cel_arch None dungeon_arch 3 1 pillars_arch =
     Inr (\<lparr>Bounds = \<lparr>MinX = 0, MinY = 0, MaxX = 192, MaxY = 224\<rparr>,
           Drawn = [DrawOver \<lparr>MinX = 64, MinY = 0, MaxX = 128, MaxY = 160\<rparr> 11,
                    DrawOver \<lparr>MinX = 64, MinY = 0, MaxX = 128, MaxY = 160\<rparr> 100,
                    DrawOver \<lparr>MinX = 96, MinY = 16, MaxX = 160, MaxY = 176\<rparr> 5]\<rparr>,
          Some [100, 101, 102, 103, 104])"
    by code_simp
  from Image_arch_overlay [OF a] a show ?thesis
    by simp
qed

section \<open>The order of the plane of squares\<close>

lemma place_seq_append:
  "place_seq rd squares (xs @ ys) s D =
     (case place_seq rd squares xs s D of
        Inl r \<Rightarrow> Inl r
      | Inr (s', D') \<Rightarrow> place_seq rd squares ys s' D')"
  by (induction xs arbitrary: s D) (auto split: sum.splits prod.splits option.splits)

lemma squares_cols_seq:
  "squares_cols squares n col row fr D =
     place_seq stream_rd squares (map (\<lambda>j. (col + 2 * int j, row)) [0..<n]) fr D"
proof (induction n arbitrary: col fr D)
  case 0
  show ?case by simp
next
  case (Suc n)
  have *: "map (\<lambda>j. (col + 2 * int j, row)) [0..<Suc n]
           = (col, row) # map (\<lambda>j. (col + 2 + 2 * int j, row)) [0..<n]"
    by (simp add: upt_Suc_map del: upt_Suc)
  show ?case
    unfolding * by (simp add: Suc.IH stream_rd_def split: sum.splits prod.splits option.splits)
qed

lemma squares_rows_seq:
  "squares_rows squares m w colStart row fr D =
     place_seq stream_rd squares
       (concat (map (\<lambda>i. map (\<lambda>j. (colStart + 2 * int j, row + 2 * int i)) [0..<w]) [0..<m])) fr D"
proof (induction m arbitrary: row fr D)
  case 0
  show ?case by simp
next
  case (Suc m)
  have *: "concat (map (\<lambda>i. map (\<lambda>j. (colStart + 2 * int j, row + 2 * int i)) [0..<w]) [0..<Suc m])
           = map (\<lambda>j. (colStart + 2 * int j, row)) [0..<w]
             @ concat (map (\<lambda>i. map (\<lambda>j. (colStart + 2 * int j, row + 2 + 2 * int i)) [0..<w]) [0..<m])"
    by (simp add: upt_Suc_map add.assoc del: upt_Suc)
  show ?case
    unfolding * by (simp add: Suc.IH squares_cols_seq place_seq_append split: sum.splits prod.splits)
qed

lemma concat_grid:
  "concat (map (\<lambda>i. map (\<lambda>j. f j i) [0..<w]) [0..<m]) = map (\<lambda>k. f (k mod w) (k div w)) [0..<w * m]"
proof (induction m)
  case 0
  show ?case by simp
next
  case (Suc m)
  have a1: "[0..<w * m + w] = [0..<w * m] @ [w * m..<w * m + w]"
    by (rule upt_add_eq_append) simp
  have a2: "[w * m..<w * m + w] = map (\<lambda>j. j + w * m) [0..<w]"
    by (simp only: map_add_upt add.commute [of w "w * m"])
  have a3: "w * Suc m = w * m + w"
    by simp
  have b: "map (\<lambda>k. f (k mod w) (k div w)) (map (\<lambda>j. j + w * m) [0..<w]) = map (\<lambda>j. f j m) [0..<w]"
    by (simp add: o_def)
  have c: "concat (map (\<lambda>i. map (\<lambda>j. f j i) [0..<w]) [0..<Suc m])
           = concat (map (\<lambda>i. map (\<lambda>j. f j i) [0..<w]) [0..<m]) @ map (\<lambda>j. f j m) [0..<w]"
    by simp
  show ?case
    unfolding c a3 a1 a2 map_append b Suc.IH ..
qed

lemma dunmini_rows_seq:
  "dunmini_rows squares buf n k col row D =
     place_seq (buffer_rd buf) squares (map (\<lambda>i. (col, row + 2 * int i)) [0..<n]) k D"
proof (induction n arbitrary: k row D)
  case 0
  show ?case by simp
next
  case (Suc n)
  have *: "map (\<lambda>i. (col, row + 2 * int i)) [0..<Suc n]
           = (col, row) # map (\<lambda>i. (col, row + 2 + 2 * int i)) [0..<n]"
    by (simp add: upt_Suc_map del: upt_Suc)
  show ?case
    unfolding * by (simp add: Suc.IH buffer_rd_def split: sum.splits prod.splits option.splits)
qed

lemma dunmini_cols_seq:
  "dunmini_cols squares buf m rowCount k col rowStart D =
     place_seq (buffer_rd buf) squares
       (concat (map (\<lambda>j. map (\<lambda>i. (col + 2 * int j, rowStart + 2 * int i)) [0..<rowCount]) [0..<m])) k D"
proof (induction m arbitrary: k col D)
  case 0
  show ?case by simp
next
  case (Suc m)
  have *: "concat (map (\<lambda>j. map (\<lambda>i. (col + 2 * int j, rowStart + 2 * int i)) [0..<rowCount]) [0..<Suc m])
           = map (\<lambda>i. (col, rowStart + 2 * int i)) [0..<rowCount]
             @ concat (map (\<lambda>j. map (\<lambda>i. (col + 2 + 2 * int j, rowStart + 2 * int i)) [0..<rowCount]) [0..<m])"
    by (simp add: upt_Suc_map add.assoc del: upt_Suc)
  show ?case
    unfolding * by (simp add: Suc.IH dunmini_rows_seq place_seq_append split: sum.splits prod.splits)
qed

text \<open>
  Claim C2, as amended.  The parse of a DUN stream consumes the plane of squares in
  \<open>dunQHeight\<close> outer steps that advance \<open>row\<close> by 2 and, within each, \<open>dunQWidth\<close> inner
  steps that advance \<open>col\<close> by 2, one value read per step: the value of step \<open>k\<close> goes to
  the block with origin \<open>(colStart + 2 * (k mod dunQWidth), rowStart + 2 * (k div dunQWidth))\<close>.
  The parse of a buffer runs the other way round, \<open>colCount\<close> outer steps that advance
  \<open>col\<close> by 2 and within each \<open>rowCount\<close> inner steps that advance \<open>row\<close> by 2: the value
  at index \<open>k\<close> goes to the block with origin \<open>(2 * (k div rowCount), 2 * (k mod rowCount))\<close>.
\<close>

theorem square_plane_order:
  "squares_rows squares dunQHeight dunQWidth colStart rowStart fr D =
     place_seq stream_rd squares
       (map (\<lambda>k. (colStart + 2 * int (k mod dunQWidth), rowStart + 2 * int (k div dunQWidth)))
          [0..<dunQWidth * dunQHeight]) fr D
   \<and> dunmini_cols squares buf colCount rowCount 0 0 0 D =
     place_seq (buffer_rd buf) squares
       (map (\<lambda>k. (2 * int (k div rowCount), 2 * int (k mod rowCount))) [0..<rowCount * colCount]) 0 D"
  by (simp add: squares_rows_seq dunmini_cols_seq
        concat_grid [where f = "\<lambda>j i. (colStart + 2 * int j, rowStart + 2 * int i)"]
        concat_grid [where f = "\<lambda>i j. (2 * int j, 2 * int i)"])

text \<open>
  The claim as stated, with the block of value \<open>k\<close> of a buffer at
  \<open>(2 * (k mod colCount), 2 * (k div colCount))\<close>, fails for a buffer of two columns and two
  rows whose only square is at index 1: the square lands in the block at \<open>(0, 2)\<close>, and the
  block at \<open>(2, 0)\<close> stays empty.
\<close>

theorem square_plane_order_counterexample:
  "(2 * (1 mod 2), 2 * (1 div 2)) = (2 :: int, 0 :: int)
   \<and> fst (dunmini_Parse (ext_with [] 0 0 [sq_5678]) [0, 1, 0, 0] 2 2 New) = Ret None
   \<and> snd (dunmini_Parse (ext_with [] 0 0 [sq_5678]) [0, 1, 0, 0] 2 2 New) 2 0 ''pillarNum'' = None
   \<and> snd (dunmini_Parse (ext_with [] 0 0 [sq_5678]) [0, 1, 0, 0] 2 2 New) 0 2 ''pillarNum''
       = Some 5"
  by code_simp

section \<open>Lemmas on the sequences of blocks and cells\<close>

lemma place_square_zero [simp]: "place_square squares 0 col row D = (None, D)"
  by (simp add: place_square_def)

lemma place_square_index:
  "v \<noteq> 0 \<Longrightarrow> \<not> (0 \<le> v - 1 \<and> v - 1 < int (length squares)) \<Longrightarrow>
   place_square squares v col row D = (Some SquaresIndex, D)"
  by (auto simp add: place_square_def)

lemma place_square_put:
  assumes "v \<noteq> 0" "0 \<le> v - 1" "v - 1 < int (length squares)" "block_in_grid col row"
  shows "place_square squares v col row D = (None, put_square (squares ! nat (v - 1)) col row D)"
proof -
  have "\<And>c r. snd (place_square squares v col row D) c r = put_square (squares ! nat (v - 1)) col row D c r"
    using assms
    by (simp add: place_square_def store_def block_in_grid_def put_square_def Max_defs Let_def)
  moreover have "fst (place_square squares v col row D) = None"
    using assms
    by (simp add: place_square_def store_def block_in_grid_def Max_defs Let_def)
  ultimately show ?thesis
    by (metis ext prod.collapse)
qed

lemma place_square_grid:
  assumes "v \<noteq> 0" "0 \<le> v - 1" "v - 1 < int (length squares)" "\<not> block_in_grid col row"
  shows "fst (place_square squares v col row D) = Some GridIndex"
  using assms
  by (auto simp add: place_square_def store_def block_in_grid_def Max_defs Let_def)

lemma place_square_frame:
  "\<not> (col \<le> c \<and> c \<le> col + 1 \<and> row \<le> r \<and> r \<le> row + 1) \<Longrightarrow>
   snd (place_square squares v col row D) c r = D c r"
  by (auto simp add: place_square_def store_def Let_def)

lemma place_square_keys:
  "key \<noteq> ''pillarNum'' \<Longrightarrow> snd (place_square squares v col row D) c r key = D c r key"
  by (auto simp add: place_square_def store_def Let_def)

lemma stream_rd_simps [simp]:
  "stream_rd [] = Inl (Ret (Some EOF))"
  "stream_rd [b0] = Inl (Ret (Some ErrUnexpectedEOF))"
  "stream_rd (b0 # b1 # fr) = Inr (uint (le16 b0 b1), fr)"
  by (simp_all add: stream_rd_def)

lemma buffer_rd_simps:
  "k < length buf \<Longrightarrow> buffer_rd buf k = Inr (uint (buf ! k), Suc k)"
  "\<not> k < length buf \<Longrightarrow> buffer_rd buf k = Inl (Panic BufferIndex)"
  by (simp_all add: buffer_rd_def)

lemma reads_stream: "reads stream_rd n fr = map uint (take n (u16s fr))"
proof (induction n arbitrary: fr)
  case 0
  show ?case by simp
next
  case (Suc n)
  show ?case
    by (cases fr rule: u16s.cases) (simp_all add: Suc.IH)
qed

lemma reads_buffer: "reads (buffer_rd buf) n k = map uint (take n (drop k buf))"
proof (induction n arbitrary: k)
  case 0
  show ?case by simp
next
  case (Suc n)
  show ?case
  proof (cases "k < length buf")
    case True
    then have "drop k buf = buf ! k # drop (Suc k) buf"
      by (simp add: Cons_nth_drop_Suc)
    with True show ?thesis
      by (simp add: buffer_rd_simps Suc.IH)
  next
    case False
    then show ?thesis
      by (simp add: buffer_rd_simps)
  qed
qed

lemma length_u16s: "length (u16s fr) = length fr div 2"
  by (induction fr rule: u16s.induct) simp_all

lemma place_seq_panic:
  assumes "k < length blocks" "k < length (reads rd (length blocks) s)"
    and "\<forall>D. fst (place_square squares (reads rd (length blocks) s ! k)
                  (fst (blocks ! k)) (snd (blocks ! k)) D) \<noteq> None"
  shows "\<exists>p D'. place_seq rd squares blocks s D = Inl (Panic p, D')"
  using assms
proof (induction blocks arbitrary: k s D)
  case Nil
  then show ?case by simp
next
  case (Cons b blocks)
  obtain col row where b: "b = (col, row)" by (cases b)
  from Cons.prems(2) obtain v s' where rd: "rd s = Inr (v, s')"
    by (cases "rd s") (auto split: prod.splits)
  obtain q D1 where ps: "place_square squares v col row D = (q, D1)"
    by (cases "place_square squares v col row D")
  show ?case
  proof (cases q)
    case (Some p)
    with b rd ps show ?thesis by simp
  next
    case None
    show ?thesis
    proof (cases k)
      case 0
      with Cons.prems(3) b rd have "fst (place_square squares v col row D) \<noteq> None"
        by simp
      with ps None show ?thesis by simp
    next
      case (Suc k')
      with Cons.prems b rd
      have "\<exists>p D'. place_seq rd squares blocks s' D1 = Inl (Panic p, D')"
        by (intro Cons.IH [of k' s' D1]) simp_all
      with b rd ps None show ?thesis by simp
    qed
  qed
qed

lemma place_seq_frame:
  assumes "\<forall>(col, row) \<in> set blocks. \<not> (col \<le> c \<and> c \<le> col + 1 \<and> row \<le> r \<and> r \<le> row + 1)"
  shows "dungeon_of (place_seq rd squares blocks s D) c r = D c r"
  using assms
proof (induction blocks arbitrary: s D)
  case Nil
  show ?case by (simp add: dungeon_of_def)
next
  case (Cons b blocks)
  obtain col row where b: "b = (col, row)" by (cases b)
  from Cons.prems b have fr: "\<And>v D. snd (place_square squares v col row D) c r = D c r"
    by (intro place_square_frame) auto
  from Cons.prems have rest: "\<forall>(col, row) \<in> set blocks. \<not> (col \<le> c \<and> c \<le> col + 1 \<and> row \<le> r \<and> r \<le> row + 1)"
    by simp
  show ?case
  proof (cases "rd s")
    case (Inl out)
    with b show ?thesis by (simp add: dungeon_of_def)
  next
    case (Inr vs)
    obtain v s' where vs: "vs = (v, s')" by (cases vs)
    obtain q D1 where ps: "place_square squares v col row D = (q, D1)"
      by (cases "place_square squares v col row D")
    from fr [of v D] ps have D1: "D1 c r = D c r" by simp
    show ?thesis
    proof (cases q)
      case None
      with b Inr vs ps D1 Cons.IH [OF rest, of s' D1] show ?thesis by simp
    next
      case (Some p)
      with b Inr vs ps D1 show ?thesis by (simp add: dungeon_of_def)
    qed
  qed
qed

lemma place_seq_keys:
  assumes "key \<noteq> ''pillarNum''"
  shows "dungeon_of (place_seq rd squares blocks s D) c r key = D c r key"
proof (induction blocks arbitrary: s D)
  case Nil
  show ?case by (simp add: dungeon_of_def)
next
  case (Cons b blocks)
  obtain col row where b: "b = (col, row)" by (cases b)
  show ?case
  proof (cases "rd s")
    case (Inl out)
    with b show ?thesis by (simp add: dungeon_of_def)
  next
    case (Inr vs)
    obtain v s' where vs: "vs = (v, s')" by (cases vs)
    obtain q D1 where ps: "place_square squares v col row D = (q, D1)"
      by (cases "place_square squares v col row D")
    from place_square_keys [OF assms, of squares v col row D c r] ps
    have D1: "D1 c r key = D c r key" by simp
    show ?thesis
    proof (cases q)
      case None
      with b Inr vs ps D1 Cons.IH [of s' D1] show ?thesis by simp
    next
      case (Some p)
      with b Inr vs ps D1 show ?thesis by (simp add: dungeon_of_def)
    qed
  qed
qed

lemma place_square_None:
  assumes "place_square squares v col row D = (None, D1)" "v \<noteq> 0"
  shows "0 \<le> v - 1 \<and> v - 1 < int (length squares) \<and> block_in_grid col row
         \<and> D1 = put_square (squares ! nat (v - 1)) col row D"
proof -
  have idx: "0 \<le> v - 1 \<and> v - 1 < int (length squares)"
    using assms place_square_index [of v squares col row D] by auto
  moreover have grid: "block_in_grid col row"
    using assms idx place_square_grid [of v squares col row D] by auto
  ultimately show ?thesis
    using assms place_square_put [of v squares col row D] by simp
qed

lemma place_seq_Cons_Inr:
  assumes "place_seq rd squares ((col, row) # blocks) s D = Inr (s', D')"
  shows "\<exists>v s1 D1. rd s = Inr (v, s1) \<and> place_square squares v col row D = (None, D1)
            \<and> place_seq rd squares blocks s1 D1 = Inr (s', D')
            \<and> reads rd (Suc (length blocks)) s = v # reads rd (length blocks) s1"
  using assms by (auto split: sum.splits prod.splits option.splits)

lemma place_seq_zeros:
  assumes "place_seq rd squares blocks s D = Inr (s', D')"
    and "\<forall>j<length blocks. reads rd (length blocks) s ! j = 0"
  shows "D' = D"
  using assms
proof (induction blocks arbitrary: s D)
  case Nil
  then show ?case by simp
next
  case (Cons b blocks)
  obtain col row where b: "b = (col, row)" by (cases b)
  from place_seq_Cons_Inr [OF Cons.prems(1) [unfolded b]] obtain v s1 D1 where
    st: "rd s = Inr (v, s1)" "place_square squares v col row D = (None, D1)"
        "place_seq rd squares blocks s1 D1 = Inr (s', D')"
        "reads rd (Suc (length blocks)) s = v # reads rd (length blocks) s1"
    by blast
  from Cons.prems(2) st(4) have v: "v = 0"
    by force
  from Cons.prems(2) st(4) have rest: "\<forall>j<length blocks. reads rd (length blocks) s1 ! j = 0"
    by force
  from st(2) v have "D1 = D" by simp
  with Cons.IH [OF st(3) rest] show ?case by simp
qed

lemma place_seq_single:
  assumes "place_seq rd squares blocks s D = Inr (s', D')"
    and "k < length blocks"
    and "\<forall>j<length blocks. j \<noteq> k \<longrightarrow> reads rd (length blocks) s ! j = 0"
    and "reads rd (length blocks) s ! k = S" and "S \<noteq> 0"
  shows "0 \<le> S - 1 \<and> S - 1 < int (length squares)
         \<and> block_in_grid (fst (blocks ! k)) (snd (blocks ! k))
         \<and> D' = put_square (squares ! nat (S - 1)) (fst (blocks ! k)) (snd (blocks ! k)) D"
  using assms
proof (induction blocks arbitrary: k s D)
  case Nil
  then show ?case by simp
next
  case (Cons b blocks)
  obtain col row where b: "b = (col, row)" by (cases b)
  from place_seq_Cons_Inr [OF Cons.prems(1) [unfolded b]] obtain v s1 D1 where
    st: "rd s = Inr (v, s1)" "place_square squares v col row D = (None, D1)"
        "place_seq rd squares blocks s1 D1 = Inr (s', D')"
        "reads rd (Suc (length blocks)) s = v # reads rd (length blocks) s1"
    by blast
  show ?case
  proof (cases k)
    case 0
    with Cons.prems(4) st(4) have v: "v = S" by simp
    from Cons.prems(3) st(4) 0 have "\<forall>j<length blocks. reads rd (length blocks) s1 ! j = 0"
      by force
    from place_seq_zeros [OF st(3) this] have "D' = D1" .
    with place_square_None [OF st(2) [unfolded v] Cons.prems(5)] 0 b show ?thesis
      by simp
  next
    case (Suc k')
    from Cons.prems(3) st(4) Suc have v: "v = 0" by force
    with st(2) have D1: "D1 = D" by simp
    from Cons.prems(2) Suc have k': "k' < length blocks" by simp
    from Cons.prems(3) st(4) Suc
    have rest: "\<forall>j<length blocks. j \<noteq> k' \<longrightarrow> reads rd (length blocks) s1 ! j = 0"
      by force
    from Cons.prems(4) st(4) Suc have Sk: "reads rd (length blocks) s1 ! k' = S" by simp
    from Cons.IH [OF st(3) k' rest Sk Cons.prems(5)] D1 Suc show ?thesis
      by simp
  qed
qed

lemma store_seq_append:
  "store_seq key b (xs @ ys) fr D =
     (case store_seq key b xs fr D of
        Inl r \<Rightarrow> Inl r
      | Inr (fr', D') \<Rightarrow> store_seq key (b \<and> xs = []) ys fr' D')"
  by (induction xs arbitrary: b fr D) (auto split: sum.splits prod.splits)

lemma plane_cols_seq:
  "plane_cols key i j n col row fr D =
     store_seq key (i = 0 \<and> j = 0) (map (\<lambda>t. (col + int t, row)) [0..<n]) fr D"
proof (induction n arbitrary: j col fr D)
  case 0
  show ?case by simp
next
  case (Suc n)
  have *: "map (\<lambda>t. (col + int t, row)) [0..<Suc n]
           = (col, row) # map (\<lambda>t. (col + 1 + int t, row)) [0..<n]"
    by (simp add: upt_Suc_map add.assoc del: upt_Suc)
  show ?case
    unfolding * by (simp add: Suc.IH split: sum.splits prod.splits)
qed

lemma store_seq_Nil_cells: "store_seq key b (concat (map (\<lambda>i. []) xs)) fr D = Inr (fr, D)"
  by (induction xs) simp_all

lemma plane_rows_seq:
  "plane_rows key i m w colStart row fr D =
     store_seq key (i = 0) (plane_cells w m colStart row) fr D"
proof (induction m arbitrary: i row fr D)
  case 0
  show ?case by (simp add: plane_cells_def)
next
  case (Suc m)
  have *: "plane_cells w (Suc m) colStart row
           = map (\<lambda>j. (colStart + int j, row)) [0..<w] @ plane_cells w m colStart (row + 1)"
    by (simp add: plane_cells_def upt_Suc_map add.assoc del: upt_Suc)
  show ?case
  proof (cases "w = 0")
    case True
    with Suc.IH [of "Suc i" "row + 1" fr D] show ?thesis
      by (simp add: plane_cells_def store_seq_Nil_cells del: upt_Suc)
  next
    case False
    then show ?thesis
      unfolding * by (simp add: Suc.IH plane_cols_seq store_seq_append split: sum.splits prod.splits)
  qed
qed

lemma parse_planes_seq:
  "parse_planes squares w h colStart rowStart fr D =
     (case squares_rows squares h w colStart rowStart fr D of
        Inl r \<Rightarrow> r
      | Inr (fr1, D1) \<Rightarrow>
          planes_seq [''unknown'', ''dunMonsterID'', ''dunObjectID'', ''transparency'']
            (plane_cells (2 * w) (2 * h) colStart rowStart) fr1 D1)"
  by (simp add: parse_planes_def plane_rows_seq Let_def split: sum.splits prod.splits)

lemma store_in_grid:
  "in_grid col row \<Longrightarrow> store D col row key v = Inr (D(col := (D col)(row := (D col row)(key \<mapsto> v))))"
  by (simp add: store_def in_grid_def)

lemma store_seq_eof_start:
  "cells \<noteq> [] \<Longrightarrow> store_seq key True cells [] D = Inl (Ret None, D)"
  by (cases cells) auto

lemma store_seq_complete:
  assumes "2 * length cells \<le> length fr" "\<forall>(c, r) \<in> set cells. in_grid c r"
  shows "\<exists>D'. store_seq key b cells fr D = Inr (drop (2 * length cells) fr, D')"
  using assms
proof (induction cells arbitrary: b fr D)
  case Nil
  show ?case by simp
next
  case (Cons cell cells)
  obtain col row where cell: "cell = (col, row)" by (cases cell)
  from Cons.prems(1) obtain b0 b1 fr' where fr: "fr = b0 # b1 # fr'"
    by (cases fr rule: u16s.cases) auto
  from Cons.prems(2) cell have g: "in_grid col row" by simp
  from Cons.prems fr have "2 * length cells \<le> length fr'" "\<forall>(c, r) \<in> set cells. in_grid c r"
    by simp_all
  from Cons.IH [OF this] cell fr g show ?case
    by (simp add: store_in_grid)
qed

lemma store_seq_truncated:
  assumes "length fr < 2 * length cells" "b \<longrightarrow> fr \<noteq> []" "\<forall>(c, r) \<in> set cells. in_grid c r"
  shows "\<exists>e D'. store_seq key b cells fr D = Inl (Ret (Some e), D') \<and> e \<in> {EOF, ErrUnexpectedEOF}"
  using assms
proof (induction cells arbitrary: b fr D)
  case Nil
  then show ?case by simp
next
  case (Cons cell cells)
  obtain col row where cell: "cell = (col, row)" by (cases cell)
  from Cons.prems(3) cell have g: "in_grid col row" by simp
  show ?case
  proof (cases fr)
    case Nil
    with Cons.prems(2) cell show ?thesis by simp
  next
    case fr1: (Cons b0 fr1)
    show ?thesis
    proof (cases fr1)
      case Nil
      with fr1 cell show ?thesis by simp
    next
      case (Cons b1 fr')
      with fr1 Cons.prems have "length fr' < 2 * length cells" "False \<longrightarrow> fr' \<noteq> []"
        "\<forall>(c, r) \<in> set cells. in_grid c r"
        by simp_all
      from Cons.IH [OF this] cell fr1 Cons g show ?thesis
        by (simp add: store_in_grid)
    qed
  qed
qed

lemma store_seq_frame:
  assumes "(c, r) \<notin> set cells"
  shows "dungeon_of (store_seq key b cells fr D) c r = D c r"
  using assms
proof (induction cells arbitrary: b fr D)
  case Nil
  show ?case by (simp add: dungeon_of_def)
next
  case (Cons cell cells)
  obtain col row where cell: "cell = (col, row)" by (cases cell)
  with Cons.prems have ne: "\<not> (col = c \<and> row = r)" and rest: "(c, r) \<notin> set cells"
    by auto
  show ?case
  proof (cases "read_uint16 fr")
    case (Inl err)
    with cell show ?thesis by (simp add: dungeon_of_def)
  next
    case (Inr xf)
    obtain x fr' where xf: "xf = (x, fr')" by (cases xf)
    show ?thesis
    proof (cases "store D col row key (uint x)")
      case (Inl p)
      with cell Inr xf show ?thesis by (simp add: dungeon_of_def)
    next
      case (Inr D1)
      with ne have "D1 c r = D c r"
        by (auto simp add: store_def split: if_splits)
      with Cons.IH [OF rest, of False fr' D1] cell \<open>read_uint16 fr = Inr xf\<close> xf Inr
      show ?thesis by simp
    qed
  qed
qed

lemma store_seq_keys:
  assumes "key' \<noteq> key"
  shows "dungeon_of (store_seq key b cells fr D) c r key' = D c r key'"
proof (induction cells arbitrary: b fr D)
  case Nil
  show ?case by (simp add: dungeon_of_def)
next
  case (Cons cell cells)
  obtain col row where cell: "cell = (col, row)" by (cases cell)
  show ?case
  proof (cases "read_uint16 fr")
    case (Inl err)
    with cell show ?thesis by (simp add: dungeon_of_def)
  next
    case (Inr xf)
    obtain x fr' where xf: "xf = (x, fr')" by (cases xf)
    show ?thesis
    proof (cases "store D col row key (uint x)")
      case (Inl p)
      with cell Inr xf show ?thesis by (simp add: dungeon_of_def)
    next
      case (Inr D1)
      with assms have "D1 c r key' = D c r key'"
        by (auto simp add: store_def split: if_splits)
      with Cons.IH [of False fr' D1] cell \<open>read_uint16 fr = Inr xf\<close> xf Inr
      show ?thesis by simp
    qed
  qed
qed

lemma store_seq_no_panic:
  assumes "\<forall>(c, r) \<in> set cells. in_grid c r"
  shows "store_seq key b cells fr D \<noteq> Inl (Panic p, D')"
  using assms
proof (induction cells arbitrary: b fr D)
  case Nil
  show ?case by simp
next
  case (Cons cell cells)
  obtain col row where cell: "cell = (col, row)" by (cases cell)
  from Cons.prems cell have g: "in_grid col row" and rest: "\<forall>(c, r) \<in> set cells. in_grid c r"
    by simp_all
  show ?case
    using Cons.IH [OF rest] cell g
    by (auto simp add: store_in_grid split: sum.splits prod.splits)
qed

lemma squares_rows_blocks:
  "squares_rows squares h w colStart rowStart fr D =
     place_seq stream_rd squares (square_blocks w h colStart rowStart) fr D"
  by (simp add: squares_rows_seq square_blocks_def
        concat_grid [where f = "\<lambda>j i. (colStart + 2 * int j, rowStart + 2 * int i)"])

lemma dunmini_cols_blocks:
  "dunmini_cols squares buf colCount rowCount 0 0 0 D =
     place_seq (buffer_rd buf) squares (dunmini_blocks colCount rowCount) 0 D"
  by (simp add: dunmini_cols_seq dunmini_blocks_def
        concat_grid [where f = "\<lambda>i j. (2 * int j, 2 * int i)"])

lemma Parse_opens:
  assumes "opens ext dunName w h colStart rowStart squares body"
  shows "Parse ext dunName D =
     (case place_seq stream_rd squares (square_blocks w h colStart rowStart) body D of
        Inl r \<Rightarrow> r
      | Inr (fr1, D1) \<Rightarrow>
          planes_seq plane_keys (plane_cells (2 * w) (2 * h) colStart rowStart) fr1 D1)"
  using assms
  by (auto simp add: opens_def opened_def Parse_def Let_def parse_planes_seq squares_rows_blocks
           split: sum.splits prod.splits option.splits)

lemma dunmini_Parse_blocks:
  assumes "til_Parse ext ''l1.til'' = Inr squares"
  shows "dunmini_Parse ext buf colCount rowCount D =
     (case place_seq (buffer_rd buf) squares (dunmini_blocks (nat colCount) (nat rowCount)) 0 D of
        Inl r \<Rightarrow> r
      | Inr (k, D') \<Rightarrow> (Ret None, D'))"
  using assms by (simp add: dunmini_Parse_def dunmini_cols_blocks)

lemma opens_ext_with:
  "read_header fr = Inr (w, h, body) \<Longrightarrow>
   opens (ext_with fr colStart rowStart squares) dunName (unat w) (unat h) colStart rowStart squares body"
  by (simp add: opens_def opened_def ext_with_def GetLevelName_def path_Split_def)

lemma place_seq_Inr_reads:
  "place_seq rd squares blocks s D = Inr (s', D') \<Longrightarrow>
   length (reads rd (length blocks) s) = length blocks"
proof (induction blocks arbitrary: s D)
  case Nil
  show ?case by simp
next
  case (Cons b blocks)
  obtain col row where b: "b = (col, row)" by (cases b)
  from place_seq_Cons_Inr [OF Cons.prems [unfolded b]] obtain v s1 D1 where
    st: "place_seq rd squares blocks s1 D1 = Inr (s', D')"
        "reads rd (Suc (length blocks)) s = v # reads rd (length blocks) s1"
    by blast
  from Cons.IH [OF st(1)] st(2) show ?case by simp
qed

lemma place_seq_stream_Inl:
  "place_seq stream_rd squares blocks fr D = Inl (out, D') \<Longrightarrow> out \<noteq> Ret None"
proof (induction blocks arbitrary: fr D)
  case Nil
  then show ?case by simp
next
  case (Cons b blocks)
  obtain col row where b: "b = (col, row)" by (cases b)
  from Cons.prems Cons.IH show ?case
    unfolding b
    by (cases fr rule: u16s.cases) (auto split: sum.splits prod.splits option.splits)
qed

lemma place_seq_buffer_Inl:
  "place_seq (buffer_rd buf) squares blocks k D = Inl (out, D') \<Longrightarrow> \<exists>p. out = Panic p"
proof (induction blocks arbitrary: k D)
  case Nil
  then show ?case by simp
next
  case (Cons b blocks)
  obtain col row where b: "b = (col, row)" by (cases b)
  from Cons.prems Cons.IH show ?case
    unfolding b
    by (cases "k < length buf")
       (auto simp add: buffer_rd_simps split: sum.splits prod.splits option.splits)
qed

lemma planes_seq_keys:
  "key' \<notin> set keys \<Longrightarrow> snd (planes_seq keys cells fr D) c r key' = D c r key'"
proof (induction keys arbitrary: fr D)
  case Nil
  show ?case by simp
next
  case (Cons key keys)
  then have ne: "key' \<noteq> key" and rest: "key' \<notin> set keys" by auto
  from store_seq_keys [OF ne, of True cells fr D c r]
  show ?case
    using Cons.IH [OF rest]
    by (auto simp add: dungeon_of_def split: sum.splits prod.splits)
qed

lemma planes_seq_frame:
  "(c, r) \<notin> set cells \<Longrightarrow> snd (planes_seq keys cells fr D) c r = D c r"
proof (induction keys arbitrary: fr D)
  case Nil
  show ?case by simp
next
  case (Cons key keys)
  from store_seq_frame [OF Cons.prems, of key True fr D]
  show ?case
    using Cons.IH [OF Cons.prems]
    by (auto simp add: dungeon_of_def split: sum.splits prod.splits)
qed

lemma planes_seq_no_panic:
  "\<forall>(c, r) \<in> set cells. in_grid c r \<Longrightarrow> fst (planes_seq keys cells fr D) \<noteq> Panic p"
proof (induction keys arbitrary: fr D)
  case Nil
  show ?case by simp
next
  case (Cons key keys)
  from store_seq_no_panic [OF Cons.prems, of key True fr D p] Cons.IH [OF Cons.prems]
  show ?case
    by (auto split: sum.splits prod.splits)
qed

lemma square_blocks_nth:
  "k < w * h \<Longrightarrow> square_blocks w h colStart rowStart ! k
     = (colStart + 2 * int (k mod w), rowStart + 2 * int (k div w))"
  by (simp add: square_blocks_def)

lemma length_square_blocks [simp]: "length (square_blocks w h colStart rowStart) = w * h"
  by (simp add: square_blocks_def)

lemma dunmini_blocks_nth:
  "k < colCount * rowCount \<Longrightarrow> dunmini_blocks colCount rowCount ! k
     = (2 * int (k div rowCount), 2 * int (k mod rowCount))"
  by (simp add: dunmini_blocks_def mult.commute)

lemma length_dunmini_blocks [simp]: "length (dunmini_blocks colCount rowCount) = colCount * rowCount"
  by (simp add: dunmini_blocks_def mult.commute)

lemma place_square_fails:
  assumes "v \<noteq> 0" "\<not> (0 \<le> v - 1 \<and> v - 1 < int (length squares) \<and> block_in_grid col row)"
  shows "fst (place_square squares v col row D) \<noteq> None"
proof (cases "0 \<le> v - 1 \<and> v - 1 < int (length squares)")
  case True
  with assms place_square_grid [of v squares col row D] show ?thesis by simp
next
  case False
  with assms place_square_index [of v squares col row D] show ?thesis by simp
qed

lemma place_square_GridIndex:
  assumes "fst (place_square squares v col row D) = Some GridIndex"
  shows "\<not> block_in_grid col row"
proof
  assume g: "block_in_grid col row"
  show False
  proof (cases "v = 0")
    case True
    with assms show False by simp
  next
    case False
    show False
    proof (cases "0 \<le> v - 1 \<and> v - 1 < int (length squares)")
      case True
      with False g assms place_square_put [of v squares col row D] show False by simp
    next
      case idx: False
      with False assms place_square_index [of v squares col row D] show False by simp
    qed
  qed
qed

lemma place_seq_no_grid_panic:
  assumes "\<forall>(c, r) \<in> set blocks. block_in_grid c r"
    and "\<And>s. rd s \<noteq> Inl (Panic GridIndex)"
  shows "place_seq rd squares blocks s D \<noteq> Inl (Panic GridIndex, D')"
  using assms(1)
proof (induction blocks arbitrary: s D)
  case Nil
  show ?case by simp
next
  case (Cons b blocks)
  obtain col row where b: "b = (col, row)" by (cases b)
  from Cons.prems b have g: "block_in_grid col row"
    and rest: "\<forall>(c, r) \<in> set blocks. block_in_grid c r"
    by simp_all
  have ps: "place_square squares v col row D \<noteq> (Some GridIndex, D1)" for v D1
  proof
    assume "place_square squares v col row D = (Some GridIndex, D1)"
    then have "fst (place_square squares v col row D) = Some GridIndex" by simp
    from place_square_GridIndex [OF this] g show False by simp
  qed
  show ?case
    unfolding b using Cons.IH [OF rest] assms(2) [of s] ps
    by (auto split: sum.splits prod.splits option.splits)
qed

lemma square_blocks_set:
  assumes "(c, r) \<in> set (square_blocks w h colStart rowStart)"
  shows "\<exists>j<w. \<exists>i<h. c = colStart + 2 * int j \<and> r = rowStart + 2 * int i"
proof -
  from assms obtain k where k: "k < w * h"
    and c: "c = colStart + 2 * int (k mod w)" and r: "r = rowStart + 2 * int (k div w)"
    by (auto simp add: square_blocks_def)
  from k have w: "0 < w" by (cases w) simp_all
  then have "k mod w < w" by simp
  moreover from k have "k div w < h"
    by (simp add: less_mult_imp_div_less mult.commute)
  ultimately show ?thesis using c r by blast
qed

lemma plane_cells_set:
  "(c, r) \<in> set (plane_cells w h colStart rowStart)
     \<longleftrightarrow> (\<exists>j<w. \<exists>i<h. c = colStart + int j \<and> r = rowStart + int i)"
  by (fastforce simp add: plane_cells_def image_iff)

lemma length_plane_cells [simp]: "length (plane_cells w h colStart rowStart) = w * h"
  by (induction h) (simp_all add: plane_cells_def)

lemma square_blocks_in_grid:
  assumes "0 \<le> colStart" "colStart + 2 * int w \<le> ColMax" "0 \<le> rowStart" "rowStart + 2 * int h \<le> RowMax"
  shows "\<forall>(c, r) \<in> set (square_blocks w h colStart rowStart). block_in_grid c r"
proof (clarify)
  fix c r assume "(c, r) \<in> set (square_blocks w h colStart rowStart)"
  from square_blocks_set [OF this] obtain j i where
    "j < w" "i < h" "c = colStart + 2 * int j" "r = rowStart + 2 * int i" by blast
  with assms show "block_in_grid c r"
    by (simp add: block_in_grid_def)
qed

lemma plane_cells_in_grid:
  assumes "0 \<le> colStart" "colStart + 2 * int w \<le> ColMax" "0 \<le> rowStart" "rowStart + 2 * int h \<le> RowMax"
  shows "\<forall>(c, r) \<in> set (plane_cells (2 * w) (2 * h) colStart rowStart). in_grid c r"
  using assms by (auto simp add: plane_cells_set in_grid_def)

lemma Parse_panics:
  assumes "opens ext dunName w h colStart rowStart squares body"
    and "k < w * h" "k < length (u16s body)"
    and "\<And>D. fst (place_square squares (uint (u16s body ! k))
                  (colStart + 2 * int (k mod w)) (rowStart + 2 * int (k div w)) D) \<noteq> None"
  shows "\<exists>p. fst (Parse ext dunName D) = Panic p"
proof -
  have "\<exists>p D'. place_seq stream_rd squares (square_blocks w h colStart rowStart) body D
          = Inl (Panic p, D')"
    using assms(2-)
    by (intro place_seq_panic [where k = k]) (simp_all add: reads_stream square_blocks_nth)
  then show ?thesis
    by (auto simp add: Parse_opens [OF assms(1)])
qed

lemma dunmini_Parse_panics:
  assumes "til_Parse ext ''l1.til'' = Inr squares"
    and "k < nat colCount * nat rowCount" "k < length buf"
    and "\<And>D. fst (place_square squares (uint (buf ! k))
                  (2 * int (k div nat rowCount)) (2 * int (k mod nat rowCount)) D) \<noteq> None"
  shows "\<exists>p. fst (dunmini_Parse ext buf colCount rowCount D) = Panic p"
proof -
  have "\<exists>p D'. place_seq (buffer_rd buf) squares (dunmini_blocks (nat colCount) (nat rowCount)) 0 D
          = Inl (Panic p, D')"
    using assms(2-)
    by (intro place_seq_panic [where k = k]) (simp_all add: reads_buffer dunmini_blocks_nth)
  then show ?thesis
    by (auto simp add: dunmini_Parse_blocks [OF assms(1)])
qed

section \<open>An index outside the table of squares\<close>

text \<open>
  Claim C1, as amended.  Neither parser checks the index of a square.  When the plane
  holds, at a place \<open>k\<close> that the input reaches, a value that is not zero and whose
  predecessor is not below the length of the table, the parse ends in a panic (an index
  out of range) and returns no error; this holds for the stream and for the buffer.  For
  every index within the table the lookup succeeds: no panic comes from it, and with the
  block inside the grid the four pillars of the square are written.
\<close>

theorem square_index_out_of_range:
  "(opens ext dunName w h colStart rowStart squares body \<and> k < w * h \<and> k < length (u16s body)
      \<and> u16s body ! k \<noteq> 0 \<and> int (length squares) \<le> uint (u16s body ! k) - 1
      \<longrightarrow> (\<exists>p. fst (Parse ext dunName D) = Panic p))
   \<and> (til_Parse ext ''l1.til'' = Inr squares \<and> k < nat colCount * nat rowCount \<and> k < length buf
      \<and> buf ! k \<noteq> 0 \<and> int (length squares) \<le> uint (buf ! k) - 1
      \<longrightarrow> (\<exists>p. fst (dunmini_Parse ext buf colCount rowCount D) = Panic p))
   \<and> (v \<noteq> 0 \<and> 0 \<le> v - 1 \<and> v - 1 < int (length squares)
      \<longrightarrow> fst (place_square squares v col row D) \<noteq> Some SquaresIndex
          \<and> (block_in_grid col row
              \<longrightarrow> place_square squares v col row D
                    = (None, put_square (squares ! nat (v - 1)) col row D)))"
proof (intro conjI impI)
  assume a: "opens ext dunName w h colStart rowStart squares body \<and> k < w * h \<and> k < length (u16s body)
      \<and> u16s body ! k \<noteq> 0 \<and> int (length squares) \<le> uint (u16s body ! k) - 1"
  then have nz: "uint (u16s body ! k) \<noteq> 0"
    by (simp add: uint_0_iff)
  from a have o: "opens ext dunName w h colStart rowStart squares body"
    and kk: "k < w * h" and kl: "k < length (u16s body)"
    by simp_all
  show "\<exists>p. fst (Parse ext dunName D) = Panic p"
    by (rule Parse_panics [OF o kk kl]) (rule place_square_fails, use a nz in auto)
next
  assume a: "til_Parse ext ''l1.til'' = Inr squares \<and> k < nat colCount * nat rowCount \<and> k < length buf
      \<and> buf ! k \<noteq> 0 \<and> int (length squares) \<le> uint (buf ! k) - 1"
  then have nz: "uint (buf ! k) \<noteq> 0"
    by (simp add: uint_0_iff)
  from a have t: "til_Parse ext ''l1.til'' = Inr squares"
    and kk: "k < nat colCount * nat rowCount" and kl: "k < length buf"
    by simp_all
  show "\<exists>p. fst (dunmini_Parse ext buf colCount rowCount D) = Panic p"
    by (rule dunmini_Parse_panics [OF t kk kl]) (rule place_square_fails, use a nz in auto)
next
  assume a: "v \<noteq> 0 \<and> 0 \<le> v - 1 \<and> v - 1 < int (length squares)"
  show "fst (place_square squares v col row D) \<noteq> Some SquaresIndex"
  proof (cases "block_in_grid col row")
    case True
    with a place_square_put [of v squares col row D] show ?thesis by simp
  next
    case False
    with a place_square_grid [of v squares col row D] show ?thesis by simp
  qed
next
  assume "v \<noteq> 0 \<and> 0 \<le> v - 1 \<and> v - 1 < int (length squares)" "block_in_grid col row"
  then show "place_square squares v col row D = (None, put_square (squares ! nat (v - 1)) col row D)"
    by (simp add: place_square_put)
qed

theorem square_index_out_of_range_witness:
  "opens (ext_with [1, 0, 1, 0, 2, 0] 0 0 [sq_5678]) ''a.dun'' 1 1 0 0 [sq_5678] [2, 0]
   \<and> (0 :: nat) < 1 * 1 \<and> 0 < length (u16s [2, 0 :: byte]) \<and> u16s [2, 0 :: byte] ! 0 \<noteq> 0
   \<and> int (length [sq_5678]) \<le> uint (u16s [2, 0 :: byte] ! 0) - 1
   \<and> (\<exists>p. fst (Parse (ext_with [1, 0, 1, 0, 2, 0] 0 0 [sq_5678]) ''a.dun'' New) = Panic p)
   \<and> til_Parse (ext_with [] 0 0 [sq_5678]) ''l1.til'' = Inr [sq_5678]
   \<and> (0 :: nat) < nat 1 * nat 1 \<and> 0 < length [2 :: byte] \<and> [2 :: byte] ! 0 \<noteq> 0
   \<and> int (length [sq_5678]) \<le> uint ([2 :: byte] ! 0) - 1
   \<and> (\<exists>p. fst (dunmini_Parse (ext_with [] 0 0 [sq_5678]) [2] 1 1 New) = Panic p)
   \<and> (1 :: int) \<noteq> 0 \<and> (0 :: int) \<le> 1 - 1 \<and> (1 :: int) - 1 < int (length [sq_5678])
   \<and> block_in_grid 0 0
   \<and> place_square [sq_5678] 1 0 0 New = (None, put_square ([sq_5678] ! nat (1 - 1)) 0 0 New)"
proof -
  have h: "read_header [1, 0, 1, 0, 2, 0] = Inr (1, 1, [2, 0])"
    by (simp add: le16_def)
  have o: "opens (ext_with [1, 0, 1, 0, 2, 0] 0 0 [sq_5678]) ''a.dun'' 1 1 0 0 [sq_5678] [2, 0]"
    using opens_ext_with [OF h, of 0 0 "[sq_5678]" "''a.dun''"] by simp
  have v: "u16s [2, 0 :: byte] = [2]"
    by (simp add: le16_def)
  have t: "til_Parse (ext_with [] 0 0 [sq_5678]) ''l1.til'' = Inr [sq_5678]"
    by (simp add: ext_with_def)
  have g: "block_in_grid 0 0"
    by (simp add: block_in_grid_def Max_defs)
  from square_index_out_of_range
         [where ext = "ext_with [1, 0, 1, 0, 2, 0] 0 0 [sq_5678]" and dunName = "''a.dun''"
            and w = 1 and h = 1 and colStart = 0 and rowStart = 0 and squares = "[sq_5678]"
            and body = "[2, 0]" and k = 0 and D = New, THEN conjunct1]
       square_index_out_of_range
         [where ext = "ext_with [] 0 0 [sq_5678]" and squares = "[sq_5678]" and k = 0
            and colCount = 1 and rowCount = 1 and buf = "[2]" and D = New,
          THEN conjunct2, THEN conjunct1]
       square_index_out_of_range
         [where squares = "[sq_5678]" and v = 1 and col = 0 and row = 0 and D = New,
          THEN conjunct2, THEN conjunct2]
       o v t g
  show ?thesis
    by simp
qed

text \<open>
  The claim as stated has the parse return an error.  A table of one square and the
  value 2 in the plane: both parsers panic at the lookup of the square.
\<close>

theorem square_index_out_of_range_counterexample:
  "fst (Parse (ext_with [1, 0, 1, 0, 2, 0] 0 0 [sq_5678]) ''a.dun'' New) = Panic SquaresIndex
   \<and> fst (dunmini_Parse (ext_with [] 0 0 [sq_5678]) [2] 1 1 New) = Panic SquaresIndex"
  by code_simp

section \<open>The cells that the parse of a stream writes\<close>

lemma stream_rd_no_panic: "stream_rd fr \<noteq> Inl (Panic p)"
  by (cases fr rule: u16s.cases) simp_all

lemma Parse_not_opens:
  assumes "\<forall>w h colStart rowStart squares body. \<not> opens ext dunName w h colStart rowStart squares body"
  shows "snd (Parse ext dunName D) = D"
  using assms
  by (auto simp add: Parse_def opens_def opened_def Let_def
           split: sum.splits prod.splits option.splits)

lemma Parse_frame_lemma:
  assumes o: "opens ext dunName w h colStart rowStart squares body"
    and out: "\<not> (colStart \<le> col \<and> col < colStart + 2 * int w
                 \<and> rowStart \<le> row \<and> row < rowStart + 2 * int h)"
  shows "snd (Parse ext dunName D) col row = D col row"
proof -
  let ?r = "place_seq stream_rd squares (square_blocks w h colStart rowStart) body D"
  have blocks: "\<forall>(c, r) \<in> set (square_blocks w h colStart rowStart).
                  \<not> (c \<le> col \<and> col \<le> c + 1 \<and> r \<le> row \<and> row \<le> r + 1)"
  proof (clarify)
    fix c r
    assume m: "(c, r) \<in> set (square_blocks w h colStart rowStart)"
      and "c \<le> col" "col \<le> c + 1" "r \<le> row" "row \<le> r + 1"
    with square_blocks_set [OF m] out show False
      by auto
  qed
  have cells: "(col, row) \<notin> set (plane_cells (2 * w) (2 * h) colStart rowStart)"
    using out by (auto simp add: plane_cells_set)
  have sq: "dungeon_of ?r col row = D col row"
    by (rule place_seq_frame [OF blocks])
  show ?thesis
  proof (cases ?r)
    case (Inl a)
    with sq show ?thesis
      by (simp add: Parse_opens [OF o] dungeon_of_def split: prod.splits)
  next
    case (Inr b)
    obtain fr1 D1 where b: "b = (fr1, D1)" by (cases b)
    with Inr sq have "D1 col row = D col row"
      by (simp add: dungeon_of_def)
    with Inr b planes_seq_frame [OF cells, of plane_keys fr1 D1] show ?thesis
      by (simp add: Parse_opens [OF o])
  qed
qed

text \<open>
  Claim C10.  The parse of a stream changes no cell outside the rectangle
  \<open>colStart \<le> col < colStart + 2 * dunQWidth\<close>, \<open>rowStart \<le> row < rowStart + 2 * dunQHeight\<close>:
  such a cell holds after \<open>Parse\<close>, however the call ends, the map it held before, which on
  a fresh dungeon is the empty map.  A call that does not come to its loops changes no
  cell at all.
\<close>

theorem Parse_frame:
  "(opens ext dunName w h colStart rowStart squares body
      \<and> \<not> (colStart \<le> col \<and> col < colStart + 2 * int w
             \<and> rowStart \<le> row \<and> row < rowStart + 2 * int h)
      \<longrightarrow> snd (Parse ext dunName D) col row = D col row
          \<and> snd (Parse ext dunName New) col row = Map.empty)
   \<and> ((\<forall>w h colStart rowStart squares body.
          \<not> opens ext dunName w h colStart rowStart squares body)
      \<longrightarrow> snd (Parse ext dunName D) = D)"
  using Parse_frame_lemma [of ext dunName w h colStart rowStart squares body col row D]
        Parse_frame_lemma [of ext dunName w h colStart rowStart squares body col row New]
        Parse_not_opens [of ext dunName D]
  by (simp add: New_def)

theorem Parse_frame_witness:
  "opens (ext_with [1, 0, 1, 0, 1, 0] 0 0 [sq_5678]) ''a.dun'' 1 1 0 0 [sq_5678] [1, 0]
   \<and> \<not> ((0 :: int) \<le> 2 \<and> (2 :: int) < 0 + 2 * int 1 \<and> (0 :: int) \<le> 0 \<and> (0 :: int) < 0 + 2 * int 1)
   \<and> snd (Parse (ext_with [1, 0, 1, 0, 1, 0] 0 0 [sq_5678]) ''a.dun'' New) 2 0 = Map.empty
   \<and> (\<forall>w h colStart rowStart squares body.
         \<not> opens ext_levels ''foo.dun'' w h colStart rowStart squares body)
   \<and> snd (Parse ext_levels ''foo.dun'' New) = New"
proof -
  have h: "read_header [1, 0, 1, 0, 1, 0] = Inr (1, 1, [1, 0])"
    by (simp add: le16_def)
  have o: "opens (ext_with [1, 0, 1, 0, 1, 0] 0 0 [sq_5678]) ''a.dun'' 1 1 0 0 [sq_5678] [1, 0]"
    using opens_ext_with [OF h, of 0 0 "[sq_5678]" "''a.dun''"] by simp
  have n: "\<forall>w h colStart rowStart squares body.
             \<not> opens ext_levels ''foo.dun'' w h colStart rowStart squares body"
    by (simp add: opens_def opened_def ext_levels_def)
  from Parse_frame
         [where ext = "ext_with [1, 0, 1, 0, 1, 0] 0 0 [sq_5678]" and dunName = "''a.dun''"
            and w = 1 and h = 1 and colStart = 0 and rowStart = 0 and squares = "[sq_5678]"
            and body = "[1, 0]" and col = 2 and row = 0 and D = New, THEN conjunct1]
       Parse_frame [where ext = ext_levels and dunName = "''foo.dun''" and D = New, THEN conjunct2]
       o n
  show ?thesis
    by (simp add: New_def)
qed

section \<open>The bounds of the grid\<close>

lemma place_seq_panic_at:
  assumes "k < length blocks" "k < length (reads rd (length blocks) s)"
    and "\<And>D. fst (place_square squares (reads rd (length blocks) s ! k)
                  (fst (blocks ! k)) (snd (blocks ! k)) D) = Some p0"
    and "\<And>j D. j < k \<Longrightarrow> fst (place_square squares (reads rd (length blocks) s ! j)
                  (fst (blocks ! j)) (snd (blocks ! j)) D) \<in> {None, Some p0}"
  shows "\<exists>D'. place_seq rd squares blocks s D = Inl (Panic p0, D')"
  using assms
proof (induction blocks arbitrary: k s D)
  case Nil
  then show ?case by simp
next
  case (Cons b blocks)
  obtain col row where b: "b = (col, row)" by (cases b)
  from Cons.prems(2) obtain v s' where rd: "rd s = Inr (v, s')"
    by (cases "rd s") (auto split: prod.splits)
  obtain q D1 where ps: "place_square squares v col row D = (q, D1)"
    by (cases "place_square squares v col row D")
  show ?case
  proof (cases k)
    case 0
    with Cons.prems(3) [of D] b rd ps show ?thesis by simp
  next
    case (Suc k')
    from Cons.prems(4) [of 0 D] Suc b rd ps have q: "q = None \<or> q = Some p0"
      by simp
    show ?thesis
    proof (cases q)
      case (Some p)
      with q b rd ps show ?thesis by simp
    next
      case None
      have "\<exists>D'. place_seq rd squares blocks s' D1 = Inl (Panic p0, D')"
      proof (rule Cons.IH [of k' s' D1])
        show "k' < length blocks" using Cons.prems(1) Suc by simp
        show "k' < length (reads rd (length blocks) s')" using Cons.prems(2) Suc rd by simp
        show "fst (place_square squares (reads rd (length blocks) s' ! k')
                (fst (blocks ! k')) (snd (blocks ! k')) D) = Some p0" for D
          using Cons.prems(3) [of D] Suc rd by simp
        show "fst (place_square squares (reads rd (length blocks) s' ! j)
                (fst (blocks ! j)) (snd (blocks ! j)) D) \<in> {None, Some p0}" if "j < k'" for j D
          using Cons.prems(4) [of "Suc j" D] that Suc rd by simp
      qed
      with b rd ps None show ?thesis by simp
    qed
  qed
qed

lemma Parse_GridIndex:
  assumes o: "opens ext dunName w h colStart rowStart squares body"
    and k: "k < w * h" "k < length (u16s body)" "u16s body ! k \<noteq> 0"
    and g: "\<not> block_in_grid (colStart + 2 * int (k mod w)) (rowStart + 2 * int (k div w))"
    and idx: "\<forall>j\<le>k. u16s body ! j = 0 \<or> uint (u16s body ! j) - 1 < int (length squares)"
  shows "fst (Parse ext dunName D) = Panic GridIndex"
proof -
  have rd: "reads stream_rd (w * h) body ! j = uint (u16s body ! j)" if "j \<le> k" for j
    using that k by (simp add: reads_stream)
  have inr: "uint (u16s body ! j) = 0 \<or>
             (0 \<le> uint (u16s body ! j) - 1 \<and> uint (u16s body ! j) - 1 < int (length squares))"
    if "j \<le> k" for j
  proof (cases "u16s body ! j = 0")
    case True
    then show ?thesis by simp
  next
    case False
    then have "uint (u16s body ! j) \<noteq> 0" by (simp add: uint_0_iff)
    moreover have "0 \<le> uint (u16s body ! j)" by simp
    ultimately have "0 \<le> uint (u16s body ! j) - 1" by linarith
    with idx that False show ?thesis by auto
  qed
  have "\<exists>D'. place_seq stream_rd squares (square_blocks w h colStart rowStart) body D
          = Inl (Panic GridIndex, D')"
  proof (rule place_seq_panic_at [where k = k])
    show "k < length (square_blocks w h colStart rowStart)" using k by simp
    show "k < length (reads stream_rd (length (square_blocks w h colStart rowStart)) body)"
      using k by (simp add: reads_stream)
    show "fst (place_square squares
            (reads stream_rd (length (square_blocks w h colStart rowStart)) body ! k)
            (fst (square_blocks w h colStart rowStart ! k))
            (snd (square_blocks w h colStart rowStart ! k)) D) = Some GridIndex" for D
      using inr [of k] k g rd [of k]
      by (simp add: square_blocks_nth place_square_grid uint_0_iff)
    show "fst (place_square squares
            (reads stream_rd (length (square_blocks w h colStart rowStart)) body ! j)
            (fst (square_blocks w h colStart rowStart ! j))
            (snd (square_blocks w h colStart rowStart ! j)) D) \<in> {None, Some GridIndex}"
      if "j < k" for j D
    proof -
      let ?v = "uint (u16s body ! j)"
      let ?c = "colStart + 2 * int (j mod w)" and ?r = "rowStart + 2 * int (j div w)"
      from that k have jj: "j < w * h" "j \<le> k" by simp_all
      have "fst (place_square squares ?v ?c ?r D) \<in> {None, Some GridIndex}"
      proof (cases "?v = 0")
        case True
        then show ?thesis by simp
      next
        case False
        with inr [OF jj(2)] have i: "0 \<le> ?v - 1" "?v - 1 < int (length squares)" by simp_all
        show ?thesis
        proof (cases "block_in_grid ?c ?r")
          case True
          with False i show ?thesis by (simp add: place_square_put)
        next
          case g': False
          with False i show ?thesis by (simp add: place_square_grid)
        qed
      qed
      with jj rd [OF jj(2)] show ?thesis
        by (simp add: square_blocks_nth)
    qed
  qed
  then show ?thesis
    by (auto simp add: Parse_opens [OF o])
qed

lemma Parse_no_GridIndex:
  assumes o: "opens ext dunName w h colStart rowStart squares body"
    and b: "0 \<le> colStart" "colStart + 2 * int w \<le> ColMax"
           "0 \<le> rowStart" "rowStart + 2 * int h \<le> RowMax"
  shows "fst (Parse ext dunName D) \<noteq> Panic GridIndex"
proof -
  let ?r = "place_seq stream_rd squares (square_blocks w h colStart rowStart) body D"
  show ?thesis
  proof (cases ?r)
    case (Inl a)
    obtain out D' where a: "a = (out, D')" by (cases a)
    from place_seq_no_grid_panic [OF square_blocks_in_grid [OF b], of stream_rd squares body D D']
         stream_rd_no_panic Inl a
    have "out \<noteq> Panic GridIndex" by auto
    with Inl a show ?thesis
      by (simp add: Parse_opens [OF o])
  next
    case (Inr c)
    obtain fr1 D1 where c: "c = (fr1, D1)" by (cases c)
    from planes_seq_no_panic [OF plane_cells_in_grid [OF b], of plane_keys fr1 D1 GridIndex] Inr c
    show ?thesis
      by (simp add: Parse_opens [OF o])
  qed
qed

text \<open>
  Claim C8, as amended.  \<open>Parse\<close> writes the cells of a block with no check against the
  112 by 112 grid: when a value that is not zero, at a place \<open>k\<close> that the input reaches,
  belongs to a block that does not lie within the grid, the parse ends in a panic, and
  when the values up to \<open>k\<close> are zero or within the table of squares that panic is the
  write out of range.  Under the precondition \<open>0 \<le> colStart\<close>,
  \<open>colStart + 2 * dunQWidth \<le> 112\<close>, \<open>0 \<le> rowStart\<close> and \<open>rowStart + 2 * dunQHeight \<le> 112\<close> no
  write of \<open>Parse\<close> to the grid is out of range.
\<close>

theorem grid_bounds:
  "(opens ext dunName w h colStart rowStart squares body \<and> k < w * h \<and> k < length (u16s body)
      \<and> u16s body ! k \<noteq> 0
      \<and> \<not> block_in_grid (colStart + 2 * int (k mod w)) (rowStart + 2 * int (k div w))
      \<longrightarrow> (\<exists>p. fst (Parse ext dunName D) = Panic p)
          \<and> ((\<forall>j\<le>k. u16s body ! j = 0 \<or> uint (u16s body ! j) - 1 < int (length squares))
              \<longrightarrow> fst (Parse ext dunName D) = Panic GridIndex))
   \<and> (opens ext dunName w h colStart rowStart squares body
      \<and> 0 \<le> colStart \<and> colStart + 2 * int w \<le> ColMax
      \<and> 0 \<le> rowStart \<and> rowStart + 2 * int h \<le> RowMax
      \<longrightarrow> fst (Parse ext dunName D) \<noteq> Panic GridIndex)"
proof (intro conjI impI)
  assume a: "opens ext dunName w h colStart rowStart squares body \<and> k < w * h
      \<and> k < length (u16s body) \<and> u16s body ! k \<noteq> 0
      \<and> \<not> block_in_grid (colStart + 2 * int (k mod w)) (rowStart + 2 * int (k div w))"
  then have nz: "uint (u16s body ! k) \<noteq> 0"
    by (simp add: uint_0_iff)
  from a have o: "opens ext dunName w h colStart rowStart squares body"
    and kk: "k < w * h" and kl: "k < length (u16s body)"
    by simp_all
  show "\<exists>p. fst (Parse ext dunName D) = Panic p"
    by (rule Parse_panics [OF o kk kl]) (rule place_square_fails, use a nz in auto)
  from a have nzw: "u16s body ! k \<noteq> 0"
    and g: "\<not> block_in_grid (colStart + 2 * int (k mod w)) (rowStart + 2 * int (k div w))"
    by simp_all
  assume idx: "\<forall>j\<le>k. u16s body ! j = 0 \<or> uint (u16s body ! j) - 1 < int (length squares)"
  show "fst (Parse ext dunName D) = Panic GridIndex"
    by (rule Parse_GridIndex [OF o kk kl nzw g idx])
next
  assume "opens ext dunName w h colStart rowStart squares body
      \<and> 0 \<le> colStart \<and> colStart + 2 * int w \<le> ColMax
      \<and> 0 \<le> rowStart \<and> rowStart + 2 * int h \<le> RowMax"
  then have o: "opens ext dunName w h colStart rowStart squares body"
    and b: "0 \<le> colStart" "colStart + 2 * int w \<le> ColMax"
           "0 \<le> rowStart" "rowStart + 2 * int h \<le> RowMax"
    by simp_all
  show "fst (Parse ext dunName D) \<noteq> Panic GridIndex"
    by (rule Parse_no_GridIndex [OF o b])
qed

theorem grid_bounds_witness:
  "opens (ext_with [1, 0, 1, 0, 1, 0] 111 0 [sq_5678]) ''a.dun'' 1 1 111 0 [sq_5678] [1, 0]
   \<and> (0 :: nat) < 1 * 1 \<and> 0 < length (u16s [1, 0 :: byte]) \<and> u16s [1, 0 :: byte] ! 0 \<noteq> 0
   \<and> \<not> block_in_grid (111 + 2 * int (0 mod 1)) (0 + 2 * int (0 div 1))
   \<and> u16s [1, 0 :: byte] ! 0 \<noteq> 0 \<and> uint (u16s [1, 0 :: byte] ! 0) - 1 < int (length [sq_5678])
   \<and> fst (Parse (ext_with [1, 0, 1, 0, 1, 0] 111 0 [sq_5678]) ''a.dun'' New) = Panic GridIndex
   \<and> opens (ext_with [1, 0, 1, 0, 1, 0] 110 0 [sq_5678]) ''a.dun'' 1 1 110 0 [sq_5678] [1, 0]
   \<and> (0 :: int) \<le> 110 \<and> 110 + 2 * int 1 \<le> ColMax \<and> (0 :: int) \<le> 0 \<and> 0 + 2 * int 1 \<le> RowMax
   \<and> fst (Parse (ext_with [1, 0, 1, 0, 1, 0] 110 0 [sq_5678]) ''a.dun'' New) \<noteq> Panic GridIndex"
proof -
  have h: "read_header [1, 0, 1, 0, 1, 0] = Inr (1, 1, [1, 0])"
    by (simp add: le16_def)
  have o1: "opens (ext_with [1, 0, 1, 0, 1, 0] 111 0 [sq_5678]) ''a.dun'' 1 1 111 0 [sq_5678] [1, 0]"
    using opens_ext_with [OF h, of 111 0 "[sq_5678]" "''a.dun''"] by simp
  have o2: "opens (ext_with [1, 0, 1, 0, 1, 0] 110 0 [sq_5678]) ''a.dun'' 1 1 110 0 [sq_5678] [1, 0]"
    using opens_ext_with [OF h, of 110 0 "[sq_5678]" "''a.dun''"] by simp
  have v: "u16s [1, 0 :: byte] = [1]"
    by (simp add: le16_def)
  have g: "\<not> block_in_grid 111 0"
    by (simp add: block_in_grid_def Max_defs)
  from grid_bounds
         [where ext = "ext_with [1, 0, 1, 0, 1, 0] 111 0 [sq_5678]" and dunName = "''a.dun''"
            and w = 1 and h = 1 and colStart = 111 and rowStart = 0 and squares = "[sq_5678]"
            and body = "[1, 0]" and k = 0 and D = New, THEN conjunct1]
       grid_bounds
         [where ext = "ext_with [1, 0, 1, 0, 1, 0] 110 0 [sq_5678]" and dunName = "''a.dun''"
            and w = 1 and h = 1 and colStart = 110 and rowStart = 0 and squares = "[sq_5678]"
            and body = "[1, 0]" and D = New, THEN conjunct2]
       o1 o2 v g
  show ?thesis
    by (simp add: Max_defs)
qed

text \<open>
  The precondition of the claim as stated, \<open>colStart + 2 * dunQWidth \<le> 112\<close> and
  \<open>rowStart + 2 * dunQHeight \<le> 112\<close>, holds for the offset \<open>colStart = - 2\<close> and one square,
  whose first write, to \<open>dungeon[-2][0]\<close>, is out of range.
\<close>

theorem grid_bounds_counterexample:
  "(- 2 :: int) + 2 * 1 \<le> 112 \<and> (0 :: int) + 2 * 1 \<le> 112
   \<and> fst (Parse (ext_with [1, 0, 1, 0, 1, 0] (- 2) 0 [sq_5678]) ''a.dun'' New) = Panic GridIndex"
  by code_simp

section \<open>The bounds of the buffer\<close>










section \<open>A plane with one square\<close>

lemma put_square_New:
  "put_square square c r New col row key =
     (if key = ''pillarNum'' then four_cells square c r col row else None)"
  by (simp add: put_square_def New_def four_cells_def)

lemma nat_uint_pred: "nat (uint x - 1) = unat x - 1"
  by (simp add: nat_diff_distrib')

lemma Parse_success:
  assumes o: "opens ext dunName w h colStart rowStart squares body"
    and ok: "fst (Parse ext dunName D) = Ret None"
  shows "\<exists>fr1 D1. place_seq stream_rd squares (square_blocks w h colStart rowStart) body D
                    = Inr (fr1, D1)
                  \<and> (\<forall>c r. snd (Parse ext dunName D) c r ''pillarNum'' = D1 c r ''pillarNum'')"
proof (cases "place_seq stream_rd squares (square_blocks w h colStart rowStart) body D")
  case (Inl a)
  obtain out D' where a: "a = (out, D')" by (cases a)
  with Inl place_seq_stream_Inl [of squares _ body D out D'] ok show ?thesis
    by (simp add: Parse_opens [OF o])
next
  case (Inr b)
  obtain fr1 D1 where b: "b = (fr1, D1)" by (cases b)
  have "snd (planes_seq plane_keys (plane_cells (2 * w) (2 * h) colStart rowStart) fr1 D1)
          c r ''pillarNum'' = D1 c r ''pillarNum''" for c r
    by (rule planes_seq_keys) simp
  with Inr b show ?thesis
    by (simp add: Parse_opens [OF o])
qed

lemma dunmini_Parse_success:
  assumes t: "til_Parse ext ''l1.til'' = Inr squares"
    and ok: "fst (dunmini_Parse ext buf colCount rowCount D) = Ret None"
  shows "\<exists>k'. place_seq (buffer_rd buf) squares (dunmini_blocks (nat colCount) (nat rowCount)) 0 D
                = Inr (k', snd (dunmini_Parse ext buf colCount rowCount D))"
proof (cases "place_seq (buffer_rd buf) squares (dunmini_blocks (nat colCount) (nat rowCount)) 0 D")
  case (Inl a)
  obtain out D' where a: "a = (out, D')" by (cases a)
  with Inl place_seq_buffer_Inl [of buf squares _ 0 D out D'] ok show ?thesis
    by (auto simp add: dunmini_Parse_blocks [OF t])
next
  case (Inr b)
  obtain k' D1 where b: "b = (k', D1)" by (cases b)
  with Inr show ?thesis
    by (simp add: dunmini_Parse_blocks [OF t])
qed

lemma Parse_single:
  assumes o: "opens ext dunName w h colStart rowStart squares body"
    and ok: "fst (Parse ext dunName New) = Ret None"
    and k: "k < w * h" "u16s body ! k \<noteq> 0"
    and z: "\<forall>j<w * h. j \<noteq> k \<longrightarrow> u16s body ! j = 0"
  shows "unat (u16s body ! k) - 1 < length squares
         \<and> block_in_grid (colStart + 2 * int (k mod w)) (rowStart + 2 * int (k div w))
         \<and> snd (Parse ext dunName New) col row ''pillarNum''
             = four_cells (squares ! (unat (u16s body ! k) - 1))
                 (colStart + 2 * int (k mod w)) (rowStart + 2 * int (k div w)) col row"
proof -
  let ?blocks = "square_blocks w h colStart rowStart"
  from Parse_success [OF o ok] obtain fr1 D1 where
    r: "place_seq stream_rd squares ?blocks body New = Inr (fr1, D1)"
    and p: "\<And>c r. snd (Parse ext dunName New) c r ''pillarNum'' = D1 c r ''pillarNum''"
    by blast
  from place_seq_Inr_reads [OF r] have len: "w * h \<le> length (u16s body)"
    by (simp add: reads_stream)
  then have rd: "reads stream_rd (length ?blocks) body ! j = uint (u16s body ! j)" if "j < w * h" for j
    using that by (simp add: reads_stream)
  from k have nz: "uint (u16s body ! k) \<noteq> 0"
    by (simp add: uint_0_iff)
  have "0 \<le> uint (u16s body ! k) - 1 \<and> uint (u16s body ! k) - 1 < int (length squares)
        \<and> block_in_grid (fst (?blocks ! k)) (snd (?blocks ! k))
        \<and> D1 = put_square (squares ! nat (uint (u16s body ! k) - 1))
                 (fst (?blocks ! k)) (snd (?blocks ! k)) New"
  proof (rule place_seq_single [OF r _ _ _ nz])
    show "k < length ?blocks" using k by simp
    show "\<forall>j<length ?blocks. j \<noteq> k \<longrightarrow> reads stream_rd (length ?blocks) body ! j = 0"
      using z rd by simp
    show "reads stream_rd (length ?blocks) body ! k = uint (u16s body ! k)"
      using rd k by simp
  qed
  then have i: "uint (u16s body ! k) - 1 < int (length squares)"
    and g: "block_in_grid (colStart + 2 * int (k mod w)) (rowStart + 2 * int (k div w))"
    and D1: "D1 = put_square (squares ! (unat (u16s body ! k) - 1))
                 (colStart + 2 * int (k mod w)) (rowStart + 2 * int (k div w)) New"
    using k by (simp_all add: square_blocks_nth nat_uint_pred)
  from i nz have "unat (u16s body ! k) - 1 < length squares"
    by (metis nat_uint_pred nat_less_iff uint_nonnegative diff_ge_0_iff_ge int_one_le_iff_zero_less
          less_le zless_nat_conj nat_int)
  with g p [of col row] D1 show ?thesis
    by (simp add: put_square_New)
qed

lemma dunmini_Parse_single:
  assumes t: "til_Parse ext ''l1.til'' = Inr squares"
    and ok: "fst (dunmini_Parse ext buf colCount rowCount New) = Ret None"
    and k: "k < nat colCount * nat rowCount" "buf ! k \<noteq> 0"
    and z: "\<forall>j<nat colCount * nat rowCount. j \<noteq> k \<longrightarrow> buf ! j = 0"
  shows "unat (buf ! k) - 1 < length squares
         \<and> block_in_grid (2 * int (k div nat rowCount)) (2 * int (k mod nat rowCount))
         \<and> snd (dunmini_Parse ext buf colCount rowCount New) col row key
             = (if key = ''pillarNum''
                then four_cells (squares ! (unat (buf ! k) - 1))
                       (2 * int (k div nat rowCount)) (2 * int (k mod nat rowCount)) col row
                else None)"
proof -
  let ?blocks = "dunmini_blocks (nat colCount) (nat rowCount)"
  let ?D = "snd (dunmini_Parse ext buf colCount rowCount New)"
  from dunmini_Parse_success [OF t ok] obtain k' where
    r: "place_seq (buffer_rd buf) squares ?blocks 0 New = Inr (k', ?D)"
    by blast
  from place_seq_Inr_reads [OF r] have len: "nat colCount * nat rowCount \<le> length buf"
    by (simp add: reads_buffer)
  then have rd: "reads (buffer_rd buf) (length ?blocks) 0 ! j = uint (buf ! j)"
    if "j < nat colCount * nat rowCount" for j
    using that by (simp add: reads_buffer)
  from k have nz: "uint (buf ! k) \<noteq> 0"
    by (simp add: uint_0_iff)
  have "0 \<le> uint (buf ! k) - 1 \<and> uint (buf ! k) - 1 < int (length squares)
        \<and> block_in_grid (fst (?blocks ! k)) (snd (?blocks ! k))
        \<and> ?D = put_square (squares ! nat (uint (buf ! k) - 1))
                 (fst (?blocks ! k)) (snd (?blocks ! k)) New"
  proof (rule place_seq_single [OF r _ _ _ nz])
    show "k < length ?blocks" using k by simp
    show "\<forall>j<length ?blocks. j \<noteq> k \<longrightarrow> reads (buffer_rd buf) (length ?blocks) 0 ! j = 0"
      using z rd by simp
    show "reads (buffer_rd buf) (length ?blocks) 0 ! k = uint (buf ! k)"
      using rd k by simp
  qed
  then have i: "uint (buf ! k) - 1 < int (length squares)"
    and g: "block_in_grid (2 * int (k div nat rowCount)) (2 * int (k mod nat rowCount))"
    and D1: "?D = put_square (squares ! (unat (buf ! k) - 1))
                 (2 * int (k div nat rowCount)) (2 * int (k mod nat rowCount)) New"
    using k by (simp_all add: dunmini_blocks_nth nat_uint_pred)
  from i nz have "unat (buf ! k) - 1 < length squares"
    by (metis nat_uint_pred nat_less_iff uint_nonnegative diff_ge_0_iff_ge int_one_le_iff_zero_less
          less_le zless_nat_conj nat_int)
  with g D1 show ?thesis
    by (simp add: put_square_New)
qed

text \<open>
  Claim C3.  A parse that succeeds on a fresh grid, of a plane of squares whose value at
  place \<open>k\<close> is \<open>S \<noteq> 0\<close> and whose other values are zero, leaves \<open>pillarNum\<close> in four cells
  exactly: with \<open>(c, r)\<close> the origin of block \<open>k\<close>, the cells \<open>(c, r)\<close>, \<open>(c + 1, r)\<close>, \<open>(c, r + 1)\<close>
  and \<open>(c + 1, r + 1)\<close> hold the top, right, left and bottom pillar of the square \<open>S - 1\<close> of
  the table, and every other cell has no \<open>pillarNum\<close> at all.  This holds for the stream
  and for the buffer, each with the origin its order gives to place \<open>k\<close>.
\<close>

theorem single_square:
  "(opens ext dunName w h colStart rowStart squares body
      \<and> fst (Parse ext dunName New) = Ret None
      \<and> k < w * h \<and> u16s body ! k \<noteq> 0 \<and> (\<forall>j<w * h. j \<noteq> k \<longrightarrow> u16s body ! j = 0)
      \<longrightarrow> unat (u16s body ! k) - 1 < length squares
          \<and> snd (Parse ext dunName New) col row ''pillarNum''
              = four_cells (squares ! (unat (u16s body ! k) - 1))
                  (colStart + 2 * int (k mod w)) (rowStart + 2 * int (k div w)) col row)
   \<and> (til_Parse ext ''l1.til'' = Inr squares
      \<and> fst (dunmini_Parse ext buf colCount rowCount New) = Ret None
      \<and> k < nat colCount * nat rowCount \<and> buf ! k \<noteq> 0
      \<and> (\<forall>j<nat colCount * nat rowCount. j \<noteq> k \<longrightarrow> buf ! j = 0)
      \<longrightarrow> unat (buf ! k) - 1 < length squares
          \<and> snd (dunmini_Parse ext buf colCount rowCount New) col row ''pillarNum''
              = four_cells (squares ! (unat (buf ! k) - 1))
                  (2 * int (k div nat rowCount)) (2 * int (k mod nat rowCount)) col row)"
proof (intro conjI impI)
  assume a: "opens ext dunName w h colStart rowStart squares body
      \<and> fst (Parse ext dunName New) = Ret None
      \<and> k < w * h \<and> u16s body ! k \<noteq> 0 \<and> (\<forall>j<w * h. j \<noteq> k \<longrightarrow> u16s body ! j = 0)"
  then have o: "opens ext dunName w h colStart rowStart squares body"
    and ok: "fst (Parse ext dunName New) = Ret None"
    and k: "k < w * h" "u16s body ! k \<noteq> 0"
    and z: "\<forall>j<w * h. j \<noteq> k \<longrightarrow> u16s body ! j = 0"
    by simp_all
  from Parse_single [OF o ok k z, of col row]
  show "unat (u16s body ! k) - 1 < length squares"
    and "snd (Parse ext dunName New) col row ''pillarNum''
              = four_cells (squares ! (unat (u16s body ! k) - 1))
                  (colStart + 2 * int (k mod w)) (rowStart + 2 * int (k div w)) col row"
    by simp_all
next
  assume a: "til_Parse ext ''l1.til'' = Inr squares
      \<and> fst (dunmini_Parse ext buf colCount rowCount New) = Ret None
      \<and> k < nat colCount * nat rowCount \<and> buf ! k \<noteq> 0
      \<and> (\<forall>j<nat colCount * nat rowCount. j \<noteq> k \<longrightarrow> buf ! j = 0)"
  then have t: "til_Parse ext ''l1.til'' = Inr squares"
    and ok: "fst (dunmini_Parse ext buf colCount rowCount New) = Ret None"
    and k: "k < nat colCount * nat rowCount" "buf ! k \<noteq> 0"
    and z: "\<forall>j<nat colCount * nat rowCount. j \<noteq> k \<longrightarrow> buf ! j = 0"
    by simp_all
  from dunmini_Parse_single [OF t ok k z, of col row "''pillarNum''"]
  show "unat (buf ! k) - 1 < length squares"
    and "snd (dunmini_Parse ext buf colCount rowCount New) col row ''pillarNum''
              = four_cells (squares ! (unat (buf ! k) - 1))
                  (2 * int (k div nat rowCount)) (2 * int (k mod nat rowCount)) col row"
    by simp_all
qed

theorem single_square_witness:
  "opens (ext_with [2, 0, 1, 0, 0, 0, 1, 0] 4 6 [sq_5678]) ''a.dun'' 2 1 4 6 [sq_5678] [0, 0, 1, 0]
   \<and> fst (Parse (ext_with [2, 0, 1, 0, 0, 0, 1, 0] 4 6 [sq_5678]) ''a.dun'' New) = Ret None
   \<and> (1 :: nat) < 2 * 1 \<and> u16s [0, 0, 1, 0 :: byte] ! 1 \<noteq> 0 \<and> u16s [0, 0, 1, 0 :: byte] ! 0 = 0
   \<and> snd (Parse (ext_with [2, 0, 1, 0, 0, 0, 1, 0] 4 6 [sq_5678]) ''a.dun'' New) 7 7 ''pillarNum''
       = Some 8
   \<and> snd (Parse (ext_with [2, 0, 1, 0, 0, 0, 1, 0] 4 6 [sq_5678]) ''a.dun'' New) 4 6 ''pillarNum''
       = None
   \<and> til_Parse (ext_with [] 0 0 [sq_5678]) ''l1.til'' = Inr [sq_5678]
   \<and> fst (dunmini_Parse (ext_with [] 0 0 [sq_5678]) [0, 1] 1 2 New) = Ret None
   \<and> (1 :: nat) < nat 1 * nat 2 \<and> [0, 1 :: byte] ! 1 \<noteq> 0 \<and> [0, 1 :: byte] ! 0 = 0
   \<and> snd (dunmini_Parse (ext_with [] 0 0 [sq_5678]) [0, 1] 1 2 New) 1 2 ''pillarNum'' = Some 6
   \<and> snd (dunmini_Parse (ext_with [] 0 0 [sq_5678]) [0, 1] 1 2 New) 0 0 ''pillarNum'' = None"
proof -
  have h: "read_header [2, 0, 1, 0, 0, 0, 1, 0] = Inr (2, 1, [0, 0, 1, 0])"
    by (simp add: le16_def)
  have o: "opens (ext_with [2, 0, 1, 0, 0, 0, 1, 0] 4 6 [sq_5678]) ''a.dun'' 2 1 4 6 [sq_5678]
             [0, 0, 1, 0]"
    using opens_ext_with [OF h, of 4 6 "[sq_5678]" "''a.dun''"] by simp
  have ok: "fst (Parse (ext_with [2, 0, 1, 0, 0, 0, 1, 0] 4 6 [sq_5678]) ''a.dun'' New) = Ret None"
    by code_simp
  have v: "u16s [0, 0, 1, 0 :: byte] = [0, 1]"
    by (simp add: le16_def)
  have z: "\<forall>j<2 * 1. j \<noteq> 1 \<longrightarrow> u16s [0, 0, 1, 0 :: byte] ! j = 0"
    by (auto simp add: le16_def numeral_2_eq_2 less_Suc_eq)
  have t: "til_Parse (ext_with [] 0 0 [sq_5678]) ''l1.til'' = Inr [sq_5678]"
    by (simp add: ext_with_def)
  have ok': "fst (dunmini_Parse (ext_with [] 0 0 [sq_5678]) [0, 1] 1 2 New) = Ret None"
    by code_simp
  have z': "\<forall>j<nat 1 * nat 2. j \<noteq> 1 \<longrightarrow> [0, 1 :: byte] ! j = 0"
    by (auto simp add: numeral_2_eq_2 less_Suc_eq)
  from single_square
         [where ext = "ext_with [2, 0, 1, 0, 0, 0, 1, 0] 4 6 [sq_5678]" and dunName = "''a.dun''"
            and w = 2 and h = 1 and colStart = 4 and rowStart = 6 and squares = "[sq_5678]"
            and body = "[0, 0, 1, 0]" and k = 1 and col = 7 and row = 7, THEN conjunct1]
       single_square
         [where ext = "ext_with [2, 0, 1, 0, 0, 0, 1, 0] 4 6 [sq_5678]" and dunName = "''a.dun''"
            and w = 2 and h = 1 and colStart = 4 and rowStart = 6 and squares = "[sq_5678]"
            and body = "[0, 0, 1, 0]" and k = 1 and col = 4 and row = 6, THEN conjunct1]
       single_square
         [where ext = "ext_with [] 0 0 [sq_5678]" and squares = "[sq_5678]" and buf = "[0, 1]"
            and colCount = 1 and rowCount = 2 and k = 1 and col = 1 and row = 2, THEN conjunct2]
       single_square
         [where ext = "ext_with [] 0 0 [sq_5678]" and squares = "[sq_5678]" and buf = "[0, 1]"
            and colCount = 1 and rowCount = 2 and k = 1 and col = 0 and row = 0, THEN conjunct2]
       o ok v z t ok' z'
  show ?thesis
    by (simp add: four_cells_def sq_5678_def)
qed

section \<open>The end of the input in the planes of cell data\<close>

lemma planes_seq_empty_input: "planes_seq keys cells [] D = (Ret None, D)"
proof (induction keys)
  case Nil
  show ?case by simp
next
  case (Cons key keys)
  then show ?case
    by (cases cells) (auto simp add: store_seq_eof_start)
qed

lemma planes_seq_boundary:
  assumes "\<forall>(c, r) \<in> set cells. in_grid c r"
    and "length fr = p * (2 * length cells)" "p \<le> length keys"
  shows "planes_seq keys cells fr D = (Ret None, snd (planes_seq (take p keys) cells fr D))"
  using assms(2,3)
proof (induction keys arbitrary: p fr D)
  case Nil
  then show ?case by simp
next
  case (Cons key keys)
  show ?case
  proof (cases p)
    case 0
    with Cons.prems have "fr = []" by simp
    then show ?thesis
      using 0 planes_seq_empty_input [of "key # keys" cells D] by simp
  next
    case (Suc p')
    with Cons.prems have len: "2 * length cells \<le> length fr" by simp
    from store_seq_complete [OF len assms(1), of key True D] obtain D' where
      st: "store_seq key True cells fr D = Inr (drop (2 * length cells) fr, D')"
      by blast
    from Cons.prems Suc have "length (drop (2 * length cells) fr) = p' * (2 * length cells)"
      and "p' \<le> length keys"
      by simp_all
    from Cons.IH [OF this, of D'] st Suc show ?thesis
      by simp
  qed
qed

lemma planes_seq_truncated:
  assumes "\<forall>(c, r) \<in> set cells. in_grid c r"
    and "length fr < length keys * (2 * length cells)"
    and "\<forall>p. length fr \<noteq> p * (2 * length cells)"
  shows "\<exists>e. fst (planes_seq keys cells fr D) = Ret (Some e) \<and> e \<in> {EOF, ErrUnexpectedEOF}"
  using assms(2,3)
proof (induction keys arbitrary: fr D)
  case Nil
  then show ?case by simp
next
  case (Cons key keys)
  show ?case
  proof (cases "length fr < 2 * length cells")
    case True
    from Cons.prems(2) [rule_format, of 0] have "fr \<noteq> []" by simp
    with store_seq_truncated [OF True _ assms(1), of True key D] show ?thesis
      by auto
  next
    case False
    then have len: "2 * length cells \<le> length fr" by simp
    from store_seq_complete [OF len assms(1), of key True D] obtain D' where
      st: "store_seq key True cells fr D = Inr (drop (2 * length cells) fr, D')"
      by blast
    have a: "length (drop (2 * length cells) fr) < length keys * (2 * length cells)"
      using Cons.prems(1) len by simp
    have b: "\<forall>p. length (drop (2 * length cells) fr) \<noteq> p * (2 * length cells)"
    proof (intro allI notI)
      fix p assume "length (drop (2 * length cells) fr) = p * (2 * length cells)"
      with len have "length fr = Suc p * (2 * length cells)" by simp
      with Cons.prems(2) show False by blast
    qed
    from Cons.IH [OF a b, of D'] st show ?thesis
      by simp
  qed
qed

lemma Parse_after_squares:
  assumes "opens ext dunName w h colStart rowStart squares body"
    and "squares_rows squares h w colStart rowStart body D = Inr (fr1, D1)"
  shows "Parse ext dunName D
           = planes_seq plane_keys (plane_cells (2 * w) (2 * h) colStart rowStart) fr1 D1"
  using assms(2) by (simp add: Parse_opens [OF assms(1)] squares_rows_blocks)

lemma store_seq_Ret_None:
  "store_seq key b cells fr D = Inl (Ret None, D') \<Longrightarrow> b \<and> fr = []"
proof (induction cells arbitrary: b fr D)
  case Nil
  then show ?case by simp
next
  case (Cons cell cells)
  obtain col row where cell: "cell = (col, row)" by (cases cell)
  show ?case
  proof (cases fr)
    case Nil
    with Cons.prems cell show ?thesis by (simp split: if_splits)
  next
    case fr1: (Cons b0 fr1)
    show ?thesis
    proof (cases fr1)
      case Nil
      with Cons.prems cell fr1 show ?thesis by simp
    next
      case (Cons b1 fr')
      with Cons.prems Cons.IH [of False fr'] cell fr1 show ?thesis
        by (auto split: sum.splits)
    qed
  qed
qed

lemma store_seq_Inr:
  "store_seq key b cells fr D = Inr (fr', D') \<Longrightarrow>
   2 * length cells \<le> length fr \<and> fr' = drop (2 * length cells) fr"
proof (induction cells arbitrary: b fr D)
  case Nil
  then show ?case by simp
next
  case (Cons cell cells)
  obtain col row where cell: "cell = (col, row)" by (cases cell)
  show ?case
  proof (cases fr)
    case Nil
    with Cons.prems cell show ?thesis by (simp split: if_splits)
  next
    case fr1: (Cons b0 fr1)
    show ?thesis
    proof (cases fr1)
      case Nil
      with Cons.prems cell fr1 show ?thesis by simp
    next
      case (Cons b1 fr2)
      with Cons.prems Cons.IH [of False fr2] cell fr1 show ?thesis
        by (auto split: sum.splits)
    qed
  qed
qed

lemma planes_seq_Ret_None:
  "fst (planes_seq keys cells fr D) = Ret None \<Longrightarrow>
   (\<exists>p. p \<le> length keys \<and> length fr = p * (2 * length cells))
   \<or> length keys * (2 * length cells) \<le> length fr"
proof (induction keys arbitrary: fr D)
  case Nil
  then show ?case by simp
next
  case (Cons key keys)
  show ?case
  proof (cases "store_seq key True cells fr D")
    case (Inl a)
    obtain out D' where a: "a = (out, D')" by (cases a)
    with Inl Cons.prems have "store_seq key True cells fr D = Inl (Ret None, D')"
      by simp
    from store_seq_Ret_None [OF this] have "length fr = 0 * (2 * length cells)"
      by simp
    then show ?thesis by blast
  next
    case (Inr c)
    obtain fr' D' where c: "c = (fr', D')" by (cases c)
    from store_seq_Inr [OF Inr [unfolded c]]
    have len: "2 * length cells \<le> length fr" and fr': "fr' = drop (2 * length cells) fr"
      by simp_all
    from Inr c Cons.prems have "fst (planes_seq keys cells fr' D') = Ret None"
      by simp
    from Cons.IH [OF this] show ?thesis
    proof
      assume "\<exists>p. p \<le> length keys \<and> length fr' = p * (2 * length cells)"
      then obtain p where p: "p \<le> length keys" "length fr' = p * (2 * length cells)"
        by blast
      with len fr' have "Suc p \<le> length (key # keys) \<and> length fr = Suc p * (2 * length cells)"
        by simp
      then show ?thesis by blast
    next
      assume "length keys * (2 * length cells) \<le> length fr'"
      with len fr' have "length (key # keys) * (2 * length cells) \<le> length fr"
        by simp
      then show ?thesis by blast
    qed
  qed
qed

lemma Parse_nil_boundary:
  assumes o: "opens ext dunName w h colStart rowStart squares body"
    and s: "squares_rows squares h w colStart rowStart body D = Inr (fr1, D1)"
    and t: "length fr1 < 4 * (2 * (2 * w * (2 * h)))"
           "\<forall>p. length fr1 \<noteq> p * (2 * (2 * w * (2 * h)))"
  shows "fst (Parse ext dunName D) \<noteq> Ret None"
proof
  assume "fst (Parse ext dunName D) = Ret None"
  then have "fst (planes_seq plane_keys (plane_cells (2 * w) (2 * h) colStart rowStart) fr1 D1)
               = Ret None"
    by (simp only: Parse_after_squares [OF o s])
  from planes_seq_Ret_None [OF this] t show False
    by (auto simp add: ac_simps)
qed

text \<open>
  Claim C4.  Let the plane of squares be read without failure, leaving the bytes \<open>fr1\<close>,
  and let the planes lie within the grid; a plane of cell data takes
  \<open>2 * (2 * dunQWidth * (2 * dunQHeight))\<close> bytes.  When the input ends exactly where one of
  the four planes starts, that is when \<open>fr1\<close> holds \<open>p\<close> whole planes, \<open>Parse\<close> returns \<open>nil\<close>
  and the dungeon is the one of a parse that reads these \<open>p\<close> planes and no more (for an
  input that ends right after the squares, the dungeon as the squares left it, whatever
  the offsets).  When the input ends anywhere else within the four planes, \<open>Parse\<close>
  returns an error, \<open>io.EOF\<close> or \<open>io.ErrUnexpectedEOF\<close>; it does not return \<open>nil\<close> there even
  for planes that leave the grid.  What was written before stays in the receiver, which
  \<open>Parse\<close> does not return.
\<close>

theorem truncated_stream:
  "(opens ext dunName w h colStart rowStart squares body
      \<and> squares_rows squares h w colStart rowStart body D = Inr ([], D1)
      \<longrightarrow> Parse ext dunName D = (Ret None, D1))
   \<and> (opens ext dunName w h colStart rowStart squares body
      \<and> squares_rows squares h w colStart rowStart body D = Inr (fr1, D1)
      \<and> 0 \<le> colStart \<and> colStart + 2 * int w \<le> ColMax
      \<and> 0 \<le> rowStart \<and> rowStart + 2 * int h \<le> RowMax
      \<and> p \<le> 4 \<and> length fr1 = p * (2 * (2 * w * (2 * h)))
      \<longrightarrow> Parse ext dunName D
            = (Ret None,
               snd (planes_seq (take p plane_keys)
                      (plane_cells (2 * w) (2 * h) colStart rowStart) fr1 D1)))
   \<and> (opens ext dunName w h colStart rowStart squares body
      \<and> squares_rows squares h w colStart rowStart body D = Inr (fr1, D1)
      \<and> 0 \<le> colStart \<and> colStart + 2 * int w \<le> ColMax
      \<and> 0 \<le> rowStart \<and> rowStart + 2 * int h \<le> RowMax
      \<and> length fr1 < 4 * (2 * (2 * w * (2 * h)))
      \<and> (\<forall>p. length fr1 \<noteq> p * (2 * (2 * w * (2 * h))))
      \<longrightarrow> (\<exists>e. fst (Parse ext dunName D) = Ret (Some e) \<and> e \<in> {EOF, ErrUnexpectedEOF}))
   \<and> (opens ext dunName w h colStart rowStart squares body
      \<and> squares_rows squares h w colStart rowStart body D = Inr (fr1, D1)
      \<and> length fr1 < 4 * (2 * (2 * w * (2 * h)))
      \<and> (\<forall>p. length fr1 \<noteq> p * (2 * (2 * w * (2 * h))))
      \<longrightarrow> fst (Parse ext dunName D) \<noteq> Ret None)"
proof (intro conjI impI)
  assume "opens ext dunName w h colStart rowStart squares body
      \<and> squares_rows squares h w colStart rowStart body D = Inr ([], D1)"
  then have o: "opens ext dunName w h colStart rowStart squares body"
    and s: "squares_rows squares h w colStart rowStart body D = Inr ([], D1)"
    by simp_all
  from Parse_after_squares [OF o s] show "Parse ext dunName D = (Ret None, D1)"
    by (simp add: planes_seq_empty_input)
next
  assume a: "opens ext dunName w h colStart rowStart squares body
      \<and> squares_rows squares h w colStart rowStart body D = Inr (fr1, D1)
      \<and> 0 \<le> colStart \<and> colStart + 2 * int w \<le> ColMax
      \<and> 0 \<le> rowStart \<and> rowStart + 2 * int h \<le> RowMax
      \<and> p \<le> 4 \<and> length fr1 = p * (2 * (2 * w * (2 * h)))"
  then have o: "opens ext dunName w h colStart rowStart squares body"
    and s: "squares_rows squares h w colStart rowStart body D = Inr (fr1, D1)"
    and b: "0 \<le> colStart" "colStart + 2 * int w \<le> ColMax"
           "0 \<le> rowStart" "rowStart + 2 * int h \<le> RowMax"
    by simp_all
  from a have "length fr1 = p * (2 * length (plane_cells (2 * w) (2 * h) colStart rowStart))"
    and "p \<le> length plane_keys"
    by (simp_all add: ac_simps)
  from planes_seq_boundary [OF plane_cells_in_grid [OF b] this, of D1]
  show "Parse ext dunName D
            = (Ret None,
               snd (planes_seq (take p plane_keys)
                      (plane_cells (2 * w) (2 * h) colStart rowStart) fr1 D1))"
    by (simp only: Parse_after_squares [OF o s])
next
  assume a: "opens ext dunName w h colStart rowStart squares body
      \<and> squares_rows squares h w colStart rowStart body D = Inr (fr1, D1)
      \<and> 0 \<le> colStart \<and> colStart + 2 * int w \<le> ColMax
      \<and> 0 \<le> rowStart \<and> rowStart + 2 * int h \<le> RowMax
      \<and> length fr1 < 4 * (2 * (2 * w * (2 * h)))
      \<and> (\<forall>p. length fr1 \<noteq> p * (2 * (2 * w * (2 * h))))"
  then have o: "opens ext dunName w h colStart rowStart squares body"
    and s: "squares_rows squares h w colStart rowStart body D = Inr (fr1, D1)"
    and b: "0 \<le> colStart" "colStart + 2 * int w \<le> ColMax"
           "0 \<le> rowStart" "rowStart + 2 * int h \<le> RowMax"
    by simp_all
  from a have "length fr1
                 < length plane_keys * (2 * length (plane_cells (2 * w) (2 * h) colStart rowStart))"
    and "\<forall>p. length fr1 \<noteq> p * (2 * length (plane_cells (2 * w) (2 * h) colStart rowStart))"
    by (simp_all add: ac_simps)
  from planes_seq_truncated [OF plane_cells_in_grid [OF b] this, of D1]
  show "\<exists>e. fst (Parse ext dunName D) = Ret (Some e) \<and> e \<in> {EOF, ErrUnexpectedEOF}"
    by (simp only: Parse_after_squares [OF o s])
next
  assume "opens ext dunName w h colStart rowStart squares body
      \<and> squares_rows squares h w colStart rowStart body D = Inr (fr1, D1)
      \<and> length fr1 < 4 * (2 * (2 * w * (2 * h)))
      \<and> (\<forall>p. length fr1 \<noteq> p * (2 * (2 * w * (2 * h))))"
  then have o: "opens ext dunName w h colStart rowStart squares body"
    and s: "squares_rows squares h w colStart rowStart body D = Inr (fr1, D1)"
    and t: "length fr1 < 4 * (2 * (2 * w * (2 * h)))"
           "\<forall>p. length fr1 \<noteq> p * (2 * (2 * w * (2 * h)))"
    by simp_all
  show "fst (Parse ext dunName D) \<noteq> Ret None"
    by (rule Parse_nil_boundary [OF o s t])
qed

theorem truncated_stream_witness:
  "opens (ext_with [1, 0, 1, 0, 0, 0] 0 0 [sq_5678]) ''a.dun'' 1 1 0 0 [sq_5678] [0, 0]
   \<and> squares_rows [sq_5678] 1 1 0 0 [0, 0] New = Inr ([], New)
   \<and> Parse (ext_with [1, 0, 1, 0, 0, 0] 0 0 [sq_5678]) ''a.dun'' New = (Ret None, New)
   \<and> opens (ext_with [1, 0, 1, 0, 0, 0, 1, 0, 2, 0, 3, 0, 4, 0] 0 0 [sq_5678]) ''a.dun''
        1 1 0 0 [sq_5678] [0, 0, 1, 0, 2, 0, 3, 0, 4, 0]
   \<and> squares_rows [sq_5678] 1 1 0 0 [0, 0, 1, 0, 2, 0, 3, 0, 4, 0] New
       = Inr ([1, 0, 2, 0, 3, 0, 4, 0], New)
   \<and> (0 :: int) \<le> 0 \<and> 0 + 2 * int 1 \<le> ColMax \<and> 0 + 2 * int 1 \<le> RowMax
   \<and> (1 :: nat) \<le> 4 \<and> length [1, 0, 2, 0, 3, 0, 4, 0 :: byte] = 1 * (2 * (2 * 1 * (2 * 1)))
   \<and> Parse (ext_with [1, 0, 1, 0, 0, 0, 1, 0, 2, 0, 3, 0, 4, 0] 0 0 [sq_5678]) ''a.dun'' New
       = (Ret None,
          snd (planes_seq (take 1 plane_keys) (plane_cells (2 * 1) (2 * 1) 0 0)
                 [1, 0, 2, 0, 3, 0, 4, 0] New))
   \<and> opens (ext_with [1, 0, 1, 0, 0, 0, 1, 0, 2] 0 0 [sq_5678]) ''a.dun''
        1 1 0 0 [sq_5678] [0, 0, 1, 0, 2]
   \<and> squares_rows [sq_5678] 1 1 0 0 [0, 0, 1, 0, 2] New = Inr ([1, 0, 2], New)
   \<and> length [1, 0, 2 :: byte] < 4 * (2 * (2 * 1 * (2 * 1)))
   \<and> (\<forall>p. length [1, 0, 2 :: byte] \<noteq> p * (2 * (2 * 1 * (2 * 1))))
   \<and> (\<exists>e. fst (Parse (ext_with [1, 0, 1, 0, 0, 0, 1, 0, 2] 0 0 [sq_5678]) ''a.dun'' New)
             = Ret (Some e) \<and> e \<in> {EOF, ErrUnexpectedEOF})
   \<and> opens (ext_with [1, 0, 1, 0, 0, 0, 1, 0, 2] 200 0 [sq_5678]) ''a.dun''
        1 1 200 0 [sq_5678] [0, 0, 1, 0, 2]
   \<and> squares_rows [sq_5678] 1 1 200 0 [0, 0, 1, 0, 2] New = Inr ([1, 0, 2], New)
   \<and> fst (Parse (ext_with [1, 0, 1, 0, 0, 0, 1, 0, 2] 200 0 [sq_5678]) ''a.dun'' New) \<noteq> Ret None"
proof -
  have h1: "read_header [1, 0, 1, 0, 0, 0] = Inr (1, 1, [0, 0])"
    and h2: "read_header [1, 0, 1, 0, 0, 0, 1, 0, 2, 0, 3, 0, 4, 0]
               = Inr (1, 1, [0, 0, 1, 0, 2, 0, 3, 0, 4, 0])"
    and h3: "read_header [1, 0, 1, 0, 0, 0, 1, 0, 2] = Inr (1, 1, [0, 0, 1, 0, 2])"
    by (simp_all add: le16_def)
  have o1: "opens (ext_with [1, 0, 1, 0, 0, 0] 0 0 [sq_5678]) ''a.dun'' 1 1 0 0 [sq_5678] [0, 0]"
    using opens_ext_with [OF h1, of 0 0 "[sq_5678]" "''a.dun''"] by simp
  have o2: "opens (ext_with [1, 0, 1, 0, 0, 0, 1, 0, 2, 0, 3, 0, 4, 0] 0 0 [sq_5678]) ''a.dun''
        1 1 0 0 [sq_5678] [0, 0, 1, 0, 2, 0, 3, 0, 4, 0]"
    using opens_ext_with [OF h2, of 0 0 "[sq_5678]" "''a.dun''"] by simp
  have o3: "opens (ext_with [1, 0, 1, 0, 0, 0, 1, 0, 2] 0 0 [sq_5678]) ''a.dun''
        1 1 0 0 [sq_5678] [0, 0, 1, 0, 2]"
    using opens_ext_with [OF h3, of 0 0 "[sq_5678]" "''a.dun''"] by simp
  have o4: "opens (ext_with [1, 0, 1, 0, 0, 0, 1, 0, 2] 200 0 [sq_5678]) ''a.dun''
        1 1 200 0 [sq_5678] [0, 0, 1, 0, 2]"
    using opens_ext_with [OF h3, of 200 0 "[sq_5678]" "''a.dun''"] by simp
  have s: "squares_rows [sq_5678] 1 1 colStart 0 (0 # 0 # rest) New = Inr (rest, New)"
    for rest colStart
    by (simp add: le16_def)
  have n: "\<forall>p. length [1, 0, 2 :: byte] \<noteq> p * (2 * (2 * 1 * (2 * 1)))"
    by (simp; presburger)
  from truncated_stream
         [where ext = "ext_with [1, 0, 1, 0, 0, 0] 0 0 [sq_5678]" and dunName = "''a.dun''"
            and w = 1 and h = 1 and colStart = 0 and rowStart = 0 and squares = "[sq_5678]"
            and body = "[0, 0]" and D = New and ?D1.0 = New, THEN conjunct1]
       truncated_stream
         [where ext = "ext_with [1, 0, 1, 0, 0, 0, 1, 0, 2, 0, 3, 0, 4, 0] 0 0 [sq_5678]"
            and dunName = "''a.dun''" and w = 1 and h = 1 and colStart = 0 and rowStart = 0
            and squares = "[sq_5678]" and body = "[0, 0, 1, 0, 2, 0, 3, 0, 4, 0]" and D = New
            and ?D1.0 = New and ?fr1.0 = "[1, 0, 2, 0, 3, 0, 4, 0]" and p = 1,
          THEN conjunct2, THEN conjunct1]
       truncated_stream
         [where ext = "ext_with [1, 0, 1, 0, 0, 0, 1, 0, 2] 0 0 [sq_5678]"
            and dunName = "''a.dun''" and w = 1 and h = 1 and colStart = 0 and rowStart = 0
            and squares = "[sq_5678]" and body = "[0, 0, 1, 0, 2]" and D = New
            and ?D1.0 = New and ?fr1.0 = "[1, 0, 2]",
          THEN conjunct2, THEN conjunct2, THEN conjunct1]
       truncated_stream
         [where ext = "ext_with [1, 0, 1, 0, 0, 0, 1, 0, 2] 200 0 [sq_5678]"
            and dunName = "''a.dun''" and w = 1 and h = 1 and colStart = 200 and rowStart = 0
            and squares = "[sq_5678]" and body = "[0, 0, 1, 0, 2]" and D = New
            and ?D1.0 = New and ?fr1.0 = "[1, 0, 2]",
          THEN conjunct2, THEN conjunct2, THEN conjunct2]
       o1 o2 o3 o4 s n
  show ?thesis
    by (simp add: Max_defs)
qed

end
